theory Spec2Isabelle
  imports Complex_Main "HOL-Library.AList"
begin

section \<open>JavaScript values\<close>

text \<open>
  A JavaScript number is NaN, an infinity, or a finite value. A finite value is carried
  by the rational it denotes (every finite double is a rational, and the program only
  compares numbers, takes the smaller of two and parses integers, none of which rounds);
  the two zeros are one value, as they are for \<^verbatim>\<open><\<close>, \<^verbatim>\<open>!\<close> and \<^verbatim>\<open>||\<close>.
\<close>

datatype jsnum = NaN | NegInf | Fin rat | PosInf

text \<open>
  The values a target map can carry: numbers, strings, booleans, \<^verbatim>\<open>null\<close>,
  \<^verbatim>\<open>undefined\<close> and arrays (a \<^verbatim>\<open>browsers\<close> query may be an array of strings).
\<close>

datatype jsval =
    JUndefined
  | JNull
  | JBool bool
  | JNum jsnum
  | JStr string
  | JArr "jsval list"

text \<open>
  A plain object is the list of its own properties in property order; a property name
  occurs once, and an own property named \<^verbatim>\<open>__proto__\<close> (which no object literal creates)
  is outside the model. \<open>js_get\<close> reads an own property, \<^verbatim>\<open>undefined\<close> when it is not
  there: it stands for the reads whose key is an own key of the object
  (\<^verbatim>\<open>Object.keys\<close>) or one of the fixed names \<^verbatim>\<open>browsers\<close>, \<^verbatim>\<open>node\<close>, \<^verbatim>\<open>electron\<close>,
  \<^verbatim>\<open>chrome\<close> and the \<^verbatim>\<open>major.minor\<close> keys of the translation table, none of which
  \<^verbatim>\<open>Object.prototype\<close> has.
\<close>

type_synonym jsobj = "(string \<times> jsval) list"

definition Object_keys :: "(string \<times> 'v) list \<Rightarrow> string list" where
  "Object_keys obj = map fst obj"

definition js_get :: "jsobj \<Rightarrow> string \<Rightarrow> jsval" where
  "js_get obj k = (case map_of obj k of None \<Rightarrow> JUndefined | Some v \<Rightarrow> v)"

definition js_set :: "(string \<times> 'v) list \<Rightarrow> string \<Rightarrow> 'v \<Rightarrow> (string \<times> 'v) list" where
  "js_set obj k v = AList.update k v obj"

definition js_delete :: "jsobj \<Rightarrow> string \<Rightarrow> jsobj" where
  "js_delete obj k = AList.delete k obj"

text \<open>
  A read \<^verbatim>\<open>obj[key]\<close> with a key that comes from outside goes through the prototype
  chain: when the object has no own property of that name, the read finds what
  \<^verbatim>\<open>Object.prototype\<close> has under it. These are its properties in node: eleven functions
  and, under \<^verbatim>\<open>__proto__\<close>, the prototype object itself. \<open>inheritedString\<close> is the
  string of such an inherited value.
\<close>

datatype 'v property = Absent | Own 'v | Inherited string

definition Object_prototype_names :: "string list" where
  "Object_prototype_names =
     [''constructor'', ''__defineGetter__'', ''__defineSetter__'', ''hasOwnProperty'',
      ''__lookupGetter__'', ''__lookupSetter__'', ''isPrototypeOf'', ''propertyIsEnumerable'',
      ''toString'', ''valueOf'', ''__proto__'', ''toLocaleString'']"

definition js_read :: "(string \<times> 'v) list \<Rightarrow> string \<Rightarrow> 'v property" where
  "js_read obj k =
     (case map_of obj k of
        Some v \<Rightarrow> Own v
      | None \<Rightarrow> if k \<in> set Object_prototype_names then Inherited k else Absent)"

definition inheritedString :: "string \<Rightarrow> string" where
  "inheritedString k =
     (if k = ''__proto__'' then ''[object Object]''
      else if k = ''constructor'' then ''function Object() { [native code] }''
      else ''function '' @ k @ ''() { [native code] }'')"

text \<open>Truthiness (\<^verbatim>\<open>ToBoolean\<close>), as \<^verbatim>\<open>if (x)\<close>, \<^verbatim>\<open>!x\<close> and \<^verbatim>\<open>x || y\<close> use it.\<close>

fun truthy_num :: "jsnum \<Rightarrow> bool" where
  "truthy_num NaN = False"
| "truthy_num (Fin q) = (q \<noteq> 0)"
| "truthy_num NegInf = True"
| "truthy_num PosInf = True"

fun truthy :: "jsval \<Rightarrow> bool" where
  "truthy JUndefined = False"
| "truthy JNull = False"
| "truthy (JBool b) = b"
| "truthy (JNum n) = truthy_num n"
| "truthy (JStr s) = (s \<noteq> [])"
| "truthy (JArr xs) = True"

text \<open>\<^verbatim>\<open>typeof x === "string"\<close>\<close>

fun is_string :: "jsval \<Rightarrow> bool" where
  "is_string (JStr s) = True"
| "is_string _ = False"

text \<open>\<^verbatim>\<open>typeof x === "number"\<close>\<close>

fun is_number :: "jsval \<Rightarrow> bool" where
  "is_number (JNum n) = True"
| "is_number _ = False"

text \<open>\<^verbatim>\<open>a < b\<close> on numbers: false as soon as one side is NaN.\<close>

fun num_lt :: "jsnum \<Rightarrow> jsnum \<Rightarrow> bool" where
  "num_lt NaN _ = False"
| "num_lt _ NaN = False"
| "num_lt (Fin a) (Fin b) = (a < b)"
| "num_lt NegInf NegInf = False"
| "num_lt NegInf _ = True"
| "num_lt _ NegInf = False"
| "num_lt PosInf _ = False"
| "num_lt (Fin a) PosInf = True"

text \<open>\<^verbatim>\<open>Math.min(a, b)\<close>: NaN if one argument is NaN, the smaller one otherwise.\<close>

fun Math_min :: "jsnum \<Rightarrow> jsnum \<Rightarrow> jsnum" where
  "Math_min NaN _ = NaN"
| "Math_min _ NaN = NaN"
| "Math_min a b = (if num_lt b a then b else a)"

text \<open>An inherited value is a function or an object, so it is truthy.\<close>

fun truthy_property :: "jsnum property \<Rightarrow> bool" where
  "truthy_property Absent = False"
| "truthy_property (Own n) = truthy_num n"
| "truthy_property (Inherited k) = True"

text \<open>\<^verbatim>\<open>a < b\<close> on strings: by code units, a proper prefix being smaller.\<close>

fun str_lt :: "string \<Rightarrow> string \<Rightarrow> bool" where
  "str_lt [] [] = False"
| "str_lt [] (y # ys) = True"
| "str_lt (x # xs) [] = False"
| "str_lt (x # xs) (y # ys) =
     (if x = y then str_lt xs ys else (of_char x :: nat) < of_char y)"

text \<open>
  \<^verbatim>\<open>String(x)\<close>. The decimal printing of a number is the engine's and is taken as a
  parameter. An array prints its elements separated by commas, \<^verbatim>\<open>null\<close> and
  \<^verbatim>\<open>undefined\<close> elements as the empty string.
\<close>

fun join_comma :: "string list \<Rightarrow> string" where
  "join_comma [] = []"
| "join_comma [s] = s"
| "join_comma (s # t # ss) = s @ '','' @ join_comma (t # ss)"

fun js_String :: "(jsnum \<Rightarrow> string) \<Rightarrow> jsval \<Rightarrow> string" where
  "js_String p JUndefined = ''undefined''"
| "js_String p JNull = ''null''"
| "js_String p (JBool b) = (if b then ''true'' else ''false'')"
| "js_String p (JNum n) = p n"
| "js_String p (JStr s) = s"
| "js_String p (JArr xs) =
     join_comma (map (\<lambda>x. if x = JUndefined \<or> x = JNull then [] else js_String p x) xs)"

section \<open>The collaborators of the module\<close>

text \<open>
  What \<^verbatim>\<open>src/index.js\<close> imports or reads from its host, taken as parameters:
  the version of the running node (\<^verbatim>\<open>parseFloat(process.versions.node)\<close>), the data
  tables, the \<^verbatim>\<open>browserslist\<close> resolver (\<open>None\<close> when it throws), and the two
  conversions between numbers and strings that the language performs implicitly.
  A capability entry maps environment names to version numbers.
\<close>

type_synonym capability = "(string \<times> jsnum) list"

record env =
  nodeVersion :: jsnum
  electronToChromium :: jsobj
  browserslist :: "jsval \<Rightarrow> string list option"
  pluginList :: "(string \<times> capability) list"
  builtInsList :: "(string \<times> capability) list"
  defaultInclude :: "string list"
  moduleTransformations :: "(string \<times> string) list"
  numberToString :: "jsnum \<Rightarrow> string"
  stringToNumber :: "string \<Rightarrow> jsnum"

datatype error =
    TargetVersionMustBeNumber string string
  | ElectronMustBeSemver
  | ElectronTooOldOrNew string
  | BrowserslistError

text \<open>
  \<^verbatim>\<open>ToNumber\<close>, which \<^verbatim>\<open><\<close> applies to an operand that is not a number. An array is
  first printed and the string then read as a numeric literal.
\<close>

fun ToNumber :: "env \<Rightarrow> jsval \<Rightarrow> jsnum" where
  "ToNumber E JUndefined = NaN"
| "ToNumber E JNull = Fin 0"
| "ToNumber E (JBool b) = (if b then Fin 1 else Fin 0)"
| "ToNumber E (JNum n) = n"
| "ToNumber E (JStr s) = stringToNumber E s"
| "ToNumber E (JArr xs) = stringToNumber E (js_String (numberToString E) (JArr xs))"

text \<open>
  \<^verbatim>\<open>a < b\<close> where \<open>b\<close> has been read from a capability entry. Against a number both sides
  are compared as numbers. An inherited value is compared by its string: with the string
  of \<open>a\<close> when \<open>a\<close> is a string or an array, and as numbers otherwise, where the text of a
  function or of an object reads as NaN. So does \<^verbatim>\<open>undefined\<close>.
\<close>

fun ToPrimitive_string :: "env \<Rightarrow> jsval \<Rightarrow> string option" where
  "ToPrimitive_string E (JStr s) = Some s"
| "ToPrimitive_string E (JArr xs) = Some (js_String (numberToString E) (JArr xs))"
| "ToPrimitive_string E _ = None"

definition js_less_than :: "env \<Rightarrow> jsval \<Rightarrow> jsnum property \<Rightarrow> bool" where
  "js_less_than E a b =
     (case b of
        Own c \<Rightarrow> num_lt (ToNumber E a) c
      | Inherited k \<Rightarrow>
          (case ToPrimitive_string E a of
             Some s \<Rightarrow> str_lt s (inheritedString k)
           | None \<Rightarrow> num_lt (ToNumber E a) NaN)
      | Absent \<Rightarrow> num_lt (ToNumber E a) NaN)"

section \<open>Strings\<close>

text \<open>
  Strings are byte strings. \<^verbatim>\<open>s.split(" ")\<close> cuts at every single space, so it never
  returns the empty list, and two adjacent spaces give an empty piece.
\<close>

fun split_space :: "string \<Rightarrow> string list" where
  "split_space [] = [[]]"
| "split_space (c # cs) =
     (if c = CHR '' '' then [] # split_space cs
      else (case split_space cs of [] \<Rightarrow> [[c]] | w # ws \<Rightarrow> (c # w) # ws))"

definition is_digit :: "char \<Rightarrow> bool" where
  "is_digit c = (c \<in> set ''0123456789'')"

text \<open>The white space \<^verbatim>\<open>parseInt\<close> skips, as far as it is ASCII.\<close>

definition is_white_space :: "char \<Rightarrow> bool" where
  "is_white_space c = (c \<in> {CHR 0x09, CHR 0x0A, CHR 0x0B, CHR 0x0C, CHR 0x0D, CHR '' ''})"

definition digit_value :: "char \<Rightarrow> nat option" where
  "digit_value c =
     map_of (zip ''0123456789abcdefghijklmnopqrstuvwxyz'' [0 ..< 36] @
             zip ''ABCDEFGHIJKLMNOPQRSTUVWXYZ'' [10 ..< 36]) c"

definition radix_digit :: "nat \<Rightarrow> char \<Rightarrow> bool" where
  "radix_digit r c = (case digit_value c of None \<Rightarrow> False | Some d \<Rightarrow> d < r)"

definition digits_value :: "nat \<Rightarrow> string \<Rightarrow> int" where
  "digits_value r ds = foldl (\<lambda>a c. a * int r + int (the (digit_value c))) 0 ds"

text \<open>
  The Number value of an integer: the integer itself below \<open>2 ^ 53\<close>, and beyond that the
  nearest double (53 significant bits, a tie going to the even one), an infinity from
  \<open>2 ^ 1024\<close> on.
\<close>

function bit_length :: "int \<Rightarrow> nat" where
  "bit_length n = (if n \<le> 0 then 0 else Suc (bit_length (n div 2)))"
  by pat_completeness auto
termination
  by (relation "measure nat") auto

definition round_double :: "int \<Rightarrow> jsnum" where
  "round_double i =
     (let a = \<bar>i\<bar> in
      if a < 2 ^ 53 then Fin (of_int i)
      else (let e = bit_length a - 53;
                q = a div 2 ^ e;
                r = a mod 2 ^ e;
                q' = (if 2 ^ e < 2 * r \<or> (2 * r = 2 ^ e \<and> odd q) then q + 1 else q);
                m = q' * 2 ^ e
            in if 2 ^ 1024 \<le> m then (if i < 0 then NegInf else PosInf)
               else Fin (of_int (if i < 0 then - m else m))))"

text \<open>
  \<^verbatim>\<open>parseInt(s)\<close> with no radix: skip white space, read a sign, take radix 16 after
  \<^verbatim>\<open>0x\<close> or \<^verbatim>\<open>0X\<close> and radix 10 otherwise, read the longest run of digits; NaN when
  there is none, and the Number value of the integer read otherwise. (After the twentieth
  decimal digit the language lets an engine read the digits as zeros; node rounds the
  exact integer.)
\<close>

definition parseInt :: "string \<Rightarrow> jsnum" where
  "parseInt s =
     (let s1 = dropWhile is_white_space s;
          neg = (take 1 s1 = ''-'');
          s2 = (if take 1 s1 = ''-'' \<or> take 1 s1 = ''+'' then drop 1 s1 else s1);
          hex = (take 2 s2 = ''0x'' \<or> take 2 s2 = ''0X'');
          r = (if hex then 16 else 10);
          s3 = (if hex then drop 2 s2 else s2);
          ds = takeWhile (radix_digit r) s3
      in if ds = [] then NaN
         else round_double (if neg then - digits_value r ds else digits_value r ds))"

text \<open>
  \<^verbatim>\<open>s.match(/^(\d+\.\d+)/)\<close>: the captured group, or \<open>None\<close> when there is no match.
  The first \<^verbatim>\<open>\d+\<close> takes every leading digit (giving one back cannot help: a digit
  would then stand where the dot must).
\<close>

definition match_major_minor :: "string \<Rightarrow> string option" where
  "match_major_minor s =
     (let major = takeWhile is_digit s; rest = dropWhile is_digit s in
      if major = [] then None
      else (case rest of
              [] \<Rightarrow> None
            | c # rest' \<Rightarrow>
                (let minor = takeWhile is_digit rest' in
                 if c = CHR ''.'' \<and> minor \<noteq> [] then Some (major @ ''.'' @ minor) else None)))"

section \<open>Target normalisation\<close>

text \<open>\<^verbatim>\<open>isBrowsersQueryValid\<close> (lines 47-49).\<close>

fun isBrowsersQueryValid :: "jsval \<Rightarrow> bool" where
  "isBrowsersQueryValid (JStr s) = True"
| "isBrowsersQueryValid (JArr xs) = True"
| "isBrowsersQueryValid _ = False"

text \<open>\<^verbatim>\<open>browserNameMap\<close> (lines 51-58).\<close>

definition browserNameMap :: "(string \<times> string) list" where
  "browserNameMap =
     [(''chrome'', ''chrome''), (''edge'', ''edge''), (''firefox'', ''firefox''),
      (''ie'', ''ie''), (''ios_saf'', ''ios''), (''safari'', ''safari'')]"

text \<open>
  \<^verbatim>\<open>getLowestVersions\<close> (lines 60-70). The accumulator \<^verbatim>\<open>all\<close> only ever holds numbers,
  so it is a list of names and numbers. \<open>lowestVersion\<close> is the callback of
  \<^verbatim>\<open>reduce\<close>: \<^verbatim>\<open>browserVersion\<close> is \<^verbatim>\<open>undefined\<close> when the string has no space, and
  \<^verbatim>\<open>parseInt\<close> then reads the string \<^verbatim>\<open>"undefined"\<close>. The read
  \<^verbatim>\<open>browserNameMap[browserName]\<close> goes through the prototype chain: a name of the table
  gives a non-empty string, which is truthy, and a name of \<^verbatim>\<open>Object.prototype\<close> gives an
  inherited value, truthy as well, whose string then is the key under which the row is
  kept. The read \<^verbatim>\<open>all[key]\<close> goes through the prototype chain too; an inherited value
  there is truthy and reads as NaN in \<^verbatim>\<open>Math.min\<close>.
\<close>

definition lowestVersion :: "capability \<Rightarrow> string \<Rightarrow> capability" where
  "lowestVersion all_acc browser =
     (case split_space browser of
        [] \<Rightarrow> all_acc
      | browserName # rest \<Rightarrow>
          (let browserVersion = (case rest of [] \<Rightarrow> ''undefined'' | v # _ \<Rightarrow> v);
               parsedBrowserVersion = parseInt browserVersion
           in case js_read browserNameMap browserName of
                Absent \<Rightarrow> all_acc
              | normalizedBrowserName \<Rightarrow>
                  if parsedBrowserVersion \<noteq> NaN then
                    (let key = (case normalizedBrowserName of
                                  Own n \<Rightarrow> n
                                | Inherited k \<Rightarrow> inheritedString k
                                | Absent \<Rightarrow> [])
                     in js_set all_acc key
                          (Math_min
                             (case js_read all_acc key of
                                Absent \<Rightarrow> PosInf
                              | Own v \<Rightarrow> if truthy_num v then v else PosInf
                              | Inherited k \<Rightarrow> NaN)
                             parsedBrowserVersion))
                  else all_acc))"

definition getLowestVersions :: "string list \<Rightarrow> capability" where
  "getLowestVersions browsers = foldl lowestVersion [] browsers"

text \<open>\<^verbatim>\<open>mergeBrowsers\<close> (lines 72-79).\<close>

definition mergeBrowsers :: "jsobj \<Rightarrow> jsobj \<Rightarrow> jsobj" where
  "mergeBrowsers fromQuery fromTarget =
     foldl (\<lambda>queryObj targKey.
              if targKey \<noteq> ''browsers'' then js_set queryObj targKey (js_get fromTarget targKey)
              else queryObj)
       fromQuery (Object_keys fromTarget)"

text \<open>\<^verbatim>\<open>getCurrentNodeVersion\<close> (lines 81-83).\<close>

definition getCurrentNodeVersion :: "env \<Rightarrow> jsnum" where
  "getCurrentNodeVersion E = nodeVersion E"

text \<open>\<^verbatim>\<open>electronVersionToChromeVersion\<close> (lines 85-103).\<close>

definition electronVersionToChromeVersion :: "env \<Rightarrow> jsval \<Rightarrow> error + jsval" where
  "electronVersionToChromeVersion E semverVer =
     (let s = js_String (numberToString E) semverVer;
          s' = (if s = ''1'' then ''1.0'' else s)
      in case match_major_minor s' of
           None \<Rightarrow> Inl ElectronMustBeSemver
         | Some m1 \<Rightarrow>
             (let result = js_get (electronToChromium E) m1 in
              if \<not> truthy result then Inl (ElectronTooOldOrNew m1) else Inr result))"

text \<open>
  \<^verbatim>\<open>_extends\<close> (lines 105-115), for one source: every own property of the source is
  assigned to the target.
\<close>

definition extends :: "jsobj \<Rightarrow> jsobj \<Rightarrow> jsobj" where
  "extends target source =
     foldl (\<lambda>t key. js_set t key (js_get source key)) target (Object_keys source)"

text \<open>
  \<^verbatim>\<open>getTargets\<close> (lines 118-137), in its three steps: the node shorthand (lines
  121-123), the electron rewrite (lines 126-129) and the browsers query (lines 131-136).
\<close>

definition resolveNode :: "env \<Rightarrow> jsobj \<Rightarrow> jsobj" where
  "resolveNode E targetOps =
     (if js_get targetOps ''node'' = JBool True \<or> js_get targetOps ''node'' = JStr ''current''
      then js_set targetOps ''node'' (JNum (getCurrentNodeVersion E))
      else targetOps)"

definition rewriteElectron :: "env \<Rightarrow> jsobj \<Rightarrow> error + jsobj" where
  "rewriteElectron E targetOps =
     (if truthy (js_get targetOps ''electron'') then
        (case electronVersionToChromeVersion E (js_get targetOps ''electron'') of
           Inl e \<Rightarrow> Inl e
         | Inr v \<Rightarrow> Inr (js_delete (js_set targetOps ''chrome'' v) ''electron''))
      else Inr targetOps)"

definition resolveBrowsers :: "env \<Rightarrow> jsobj \<Rightarrow> error + jsobj" where
  "resolveBrowsers E targetOps =
     (let browserOpts = js_get targetOps ''browsers'' in
      if isBrowsersQueryValid browserOpts then
        (case browserslist E browserOpts of
           None \<Rightarrow> Inl BrowserslistError
         | Some releases \<Rightarrow>
             (let queryBrowsers = map (\<lambda>(k, v). (k, JNum v)) (getLowestVersions releases)
              in Inr (mergeBrowsers queryBrowsers targetOps)))
      else Inr targetOps)"

definition getTargets :: "env \<Rightarrow> jsobj \<Rightarrow> error + jsobj" where
  "getTargets E targets =
     (case rewriteElectron E (resolveNode E (extends [] targets)) of
        Inl e \<Rightarrow> Inl e
      | Inr targetOps \<Rightarrow> resolveBrowsers E targetOps)"

section \<open>The requirement decision\<close>

text \<open>\<^verbatim>\<open>filter\<close> with a callback that may throw: the first throw ends the call.\<close>

fun filterE :: "('a \<Rightarrow> error + bool) \<Rightarrow> 'a list \<Rightarrow> error + 'a list" where
  "filterE f [] = Inr []"
| "filterE f (x # xs) =
     (case f x of
        Inl e \<Rightarrow> Inl e
      | Inr b \<Rightarrow>
          (case filterE f xs of
             Inl e \<Rightarrow> Inl e
           | Inr ys \<Rightarrow> Inr (if b then x # ys else ys)))"

text \<open>
  The callback of the \<^verbatim>\<open>filter\<close> in \<^verbatim>\<open>isPluginRequired\<close> (lines 29-42). The read
  \<^verbatim>\<open>plugin[environment]\<close> goes through the prototype chain.
\<close>

definition isRequiredForEnvironment ::
  "env \<Rightarrow> jsobj \<Rightarrow> capability \<Rightarrow> string \<Rightarrow> error + bool" where
  "isRequiredForEnvironment E supportedEnvironments plugin environment =
     (if \<not> truthy_property (js_read plugin environment) then Inr True
      else (let lowestImplementedVersion = js_read plugin environment in
            case js_get supportedEnvironments environment of
              JStr s \<Rightarrow> Inl (TargetVersionMustBeNumber s environment)
            | lowestTargetedVersion \<Rightarrow>
                Inr (js_less_than E lowestTargetedVersion lowestImplementedVersion)))"

text \<open>\<^verbatim>\<open>isPluginRequired\<close> (lines 19-45).\<close>

definition isPluginRequired :: "env \<Rightarrow> jsobj \<Rightarrow> capability \<Rightarrow> error + bool" where
  "isPluginRequired E supportedEnvironments plugin =
     (case (if truthy (js_get supportedEnvironments ''browsers'')
            then getTargets E supportedEnvironments
            else Inr supportedEnvironments) of
        Inl e \<Rightarrow> Inl e
      | Inr supported \<Rightarrow>
          (let targetEnvironments = Object_keys supported in
           if length targetEnvironments = 0 then Inr True
           else (case filterE (isRequiredForEnvironment E supported plugin) targetEnvironments of
                   Inl e \<Rightarrow> Inl e
                 | Inr isRequiredForEnvironments \<Rightarrow>
                     Inr (if length isRequiredForEnvironments > 0 then True else False))))"

section \<open>Building the preset\<close>

text \<open>
  \<^verbatim>\<open>transformIncludesAndExculdes\<close> (lines 152-156). \<open>isBuiltInName\<close> is
  \<^verbatim>\<open>opt.match(/^(es\d+|web)\./)\<close>.
\<close>

definition isBuiltInName :: "string \<Rightarrow> bool" where
  "isBuiltInName opt =
     ((take 2 opt = ''es'' \<and> takeWhile is_digit (drop 2 opt) \<noteq> [] \<and>
       take 1 (dropWhile is_digit (drop 2 opt)) = ''.'') \<or>
      take 4 opt = ''web.'')"

record includesAndExcludes =
  all_opts :: "string list"
  plugins :: "string list"
  builtIns :: "string list"

definition transformIncludesAndExculdes :: "string list \<Rightarrow> includesAndExcludes" where
  "transformIncludesAndExculdes opts =
     \<lparr> all_opts = opts,
       plugins = filter (\<lambda>opt. \<not> isBuiltInName opt) opts,
       builtIns = filter isBuiltInName opts \<rparr>"

text \<open>
  The options as \<^verbatim>\<open>normalizeOptions\<close> returns them. \<^verbatim>\<open>moduleType\<close> is a name or
  \<^verbatim>\<open>false\<close> (\<open>None\<close>); \<^verbatim>\<open>targets\<close> may be absent (\<open>None\<close>), and \<^verbatim>\<open>getTargets\<close> then
  takes its default \<^verbatim>\<open>{}\<close>.
\<close>

record validatedOptions =
  debug :: bool
  loose :: bool
  moduleType :: "string option"
  useBuiltIns :: bool
  targets :: "jsobj option"
  includeOpt :: "string list"
  excludeOpt :: "string list"

text \<open>
  An element of the returned \<^verbatim>\<open>plugins\<close>: \<^verbatim>\<open>[require(`babel-plugin-${name}`), {loose}]\<close>
  is \<open>BabelPlugin name loose\<close>, and
  \<^verbatim>\<open>[transformPolyfillRequirePlugin, {polyfills, regenerator}]\<close> is
  \<open>TransformPolyfillRequirePlugin polyfills regenerator\<close>, where \<^verbatim>\<open>polyfills\<close> is
  \<^verbatim>\<open>undefined\<close> (\<open>None\<close>) until line 171 assigns it.
\<close>

datatype pluginEntry =
    BabelPlugin string bool
  | TransformPolyfillRequirePlugin "string list option" bool

text \<open>
  \<^verbatim>\<open>Object.keys(list).filter((name) => isPluginRequired(targets, list[name]))\<close> (lines
  166-167 and 171-172).
\<close>

definition requiredNames ::
  "env \<Rightarrow> jsobj \<Rightarrow> (string \<times> capability) list \<Rightarrow> error + string list" where
  "requiredNames E targs list =
     filterE (\<lambda>name. isPluginRequired E targs (case map_of list name of None \<Rightarrow> [] | Some c \<Rightarrow> c))
       (Object_keys list)"

text \<open>Lines 171-175, when \<^verbatim>\<open>useBuiltIns\<close> holds.\<close>

definition selectPolyfills ::
  "env \<Rightarrow> jsobj \<Rightarrow> includesAndExcludes \<Rightarrow> includesAndExcludes \<Rightarrow> error + string list" where
  "selectPolyfills E targs incl excl =
     (case requiredNames E targs (builtInsList E) of
        Inl e \<Rightarrow> Inl e
      | Inr required \<Rightarrow>
          Inr (filter (\<lambda>plugin. plugin \<notin> set (builtIns excl)) (required @ defaultInclude E)
               @ builtIns incl))"

text \<open>Lines 196-198.\<close>

definition allTransformations ::
  "string list \<Rightarrow> includesAndExcludes \<Rightarrow> includesAndExcludes \<Rightarrow> string list" where
  "allTransformations transformations incl excl =
     filter (\<lambda>plugin. plugin \<notin> set (plugins excl)) transformations @ plugins incl"

text \<open>
  Lines 200-216: the list that is returned. \<^verbatim>\<open>modulePlugin\<close> is falsy when
  \<^verbatim>\<open>moduleType\<close> is \<^verbatim>\<open>false\<close>, when the table has no such name, and when the name it
  gives is the empty string. (A validated \<^verbatim>\<open>moduleType\<close> is \<^verbatim>\<open>false\<close> or the name of a
  module system, which is no property name of \<^verbatim>\<open>Object.prototype\<close>.)
\<close>

definition modulePlugin :: "env \<Rightarrow> string option \<Rightarrow> string option" where
  "modulePlugin E mt =
     (case mt of
        None \<Rightarrow> None
      | Some m \<Rightarrow>
          (case map_of (moduleTransformations E) m of
             None \<Rightarrow> None
           | Some p \<Rightarrow> if p = [] then None else Some p))"

definition assemble ::
  "env \<Rightarrow> validatedOptions \<Rightarrow> string list \<Rightarrow> string list option \<Rightarrow> pluginEntry list" where
  "assemble E vo allTrans polyfills =
     (let regenerator = (''transform-regenerator'' \<in> set allTrans);
          plugins0 = [];
          plugins1 = (case modulePlugin E (moduleType vo) of
                        None \<Rightarrow> plugins0
                      | Some p \<Rightarrow> plugins0 @ [BabelPlugin p (loose vo)]);
          plugins2 = plugins1 @ map (\<lambda>pluginName. BabelPlugin pluginName (loose vo)) allTrans
      in if useBuiltIns vo
         then plugins2 @ [TransformPolyfillRequirePlugin polyfills regenerator]
         else plugins2)"

text \<open>
  \<^verbatim>\<open>buildPreset\<close> (lines 158-217), from the validated options on. The module variable
  \<^verbatim>\<open>hasBeenLogged\<close> is passed in and returned; what is printed is not modelled. Every
  throw comes before line 178, so a failed call leaves the variable as it was.
\<close>

definition buildPreset ::
  "env \<Rightarrow> bool \<Rightarrow> validatedOptions \<Rightarrow> error + (pluginEntry list \<times> bool)" where
  "buildPreset E hasBeenLogged vo =
     (case getTargets E (case targets vo of None \<Rightarrow> [] | Some t \<Rightarrow> t) of
        Inl e \<Rightarrow> Inl e
      | Inr targs \<Rightarrow>
          (let incl = transformIncludesAndExculdes (includeOpt vo);
               excl = transformIncludesAndExculdes (excludeOpt vo)
           in case requiredNames E targs (pluginList E) of
                Inl e \<Rightarrow> Inl e
              | Inr transformations \<Rightarrow>
                  (case (if useBuiltIns vo
                         then (case selectPolyfills E targs incl excl of
                                 Inl e \<Rightarrow> Inl e
                               | Inr ps \<Rightarrow> Inr (Some ps))
                         else Inr None) of
                     Inl e \<Rightarrow> Inl e
                   | Inr polyfills \<Rightarrow>
                       (let hasBeenLogged' =
                              (if debug vo \<and> \<not> hasBeenLogged then True else hasBeenLogged)
                        in Inr (assemble E vo (allTransformations transformations incl excl)
                                  polyfills,
                                hasBeenLogged')))))"

section \<open>The minimum of the surviving releases, as the specification words it\<close>

text \<open>
  The name and the parsed version of a release string, and the versions that survive for
  a normalised browser name: those of the releases whose name the table maps to it and
  whose version is a number.
\<close>

definition releaseName :: "string \<Rightarrow> string" where
  "releaseName r = (case split_space r of [] \<Rightarrow> [] | n # _ \<Rightarrow> n)"

definition releaseVersion :: "string \<Rightarrow> jsnum" where
  "releaseVersion r =
     parseInt (case split_space r of _ # v # _ \<Rightarrow> v | _ \<Rightarrow> ''undefined'')"

definition survivingVersions :: "string \<Rightarrow> string list \<Rightarrow> jsnum list" where
  "survivingVersions n releases =
     map releaseVersion
       (filter (\<lambda>r. map_of browserNameMap (releaseName r) = Some n \<and> releaseVersion r \<noteq> NaN)
          releases)"

section \<open>A concrete environment\<close>

text \<open>
  An environment to evaluate the program in: node 6, a translation table with the one
  entry \<^verbatim>\<open>"1.0": 49\<close>, a resolver that answers a release string, or an array of them,
  with the same strings, two transformations, one polyfill, one default inclusion.
\<close>

definition example_env :: env where
  "example_env =
     \<lparr> nodeVersion = Fin 6,
       electronToChromium = [(''1.0'', JNum (Fin 49))],
       browserslist =
         (\<lambda>q. case q of
                 JStr s \<Rightarrow> Some [s]
               | JArr xs \<Rightarrow> Some (map (js_String (\<lambda>n. [])) xs)
               | _ \<Rightarrow> None),
       pluginList =
         [(''transform-es2015-arrow-functions'', [(''chrome'', Fin 47), (''ie'', Fin 0)]),
          (''transform-regenerator'', [(''chrome'', Fin 50)])],
       builtInsList = [(''es6.map'', [(''chrome'', Fin 51)])],
       defaultInclude = [''web.timers''],
       moduleTransformations = [(''commonjs'', ''transform-es2015-modules-commonjs'')],
       numberToString = (\<lambda>n. []),
       stringToNumber = (\<lambda>s. NaN) \<rparr>"

section \<open>Notions used in the statements\<close>

text \<open>
  The decision of \<^verbatim>\<open>isPluginRequired\<close> for one environment on which it does not throw:
  what the capability entry gives for the environment is \<^verbatim>\<open>undefined\<close> or falsy (0 or
  NaN), or the targeted version is below it.
\<close>

definition requiredFor :: "env \<Rightarrow> jsobj \<Rightarrow> capability \<Rightarrow> string \<Rightarrow> bool" where
  "requiredFor E T C e =
     (\<not> truthy_property (js_read C e) \<or> js_less_than E (js_get T e) (js_read C e))"

text \<open>
  The names of a capability table that \<^verbatim>\<open>isPluginRequired\<close> answers with true, and the
  list the specification describes for \<^verbatim>\<open>buildPreset\<close>: the module transformation first
  (when \<^verbatim>\<open>moduleType\<close> is not \<^verbatim>\<open>false\<close> and the table has it), then the required
  transformations without the excluded ones followed by the included ones, then, when
  \<^verbatim>\<open>useBuiltIns\<close> holds, one polyfill unit with the required and the default polyfills
  without the excluded ones followed by the included ones.
\<close>

definition requiredOf :: "env \<Rightarrow> jsobj \<Rightarrow> (string \<times> capability) list \<Rightarrow> string list" where
  "requiredOf E targs list =
     filter (\<lambda>name. isPluginRequired E targs (case map_of list name of None \<Rightarrow> [] | Some c \<Rightarrow> c)
                      = Inr True)
       (Object_keys list)"

definition expectedPlugins :: "env \<Rightarrow> validatedOptions \<Rightarrow> jsobj \<Rightarrow> pluginEntry list" where
  "expectedPlugins E vo targs =
     (let incl = transformIncludesAndExculdes (includeOpt vo);
          excl = transformIncludesAndExculdes (excludeOpt vo);
          selected = filter (\<lambda>n. n \<notin> set (plugins excl)) (requiredOf E targs (pluginList E))
                     @ plugins incl;
          polyfillNames = filter (\<lambda>n. n \<notin> set (builtIns excl))
                            (requiredOf E targs (builtInsList E) @ defaultInclude E)
                          @ builtIns incl
      in (case moduleType vo of
            None \<Rightarrow> []
          | Some m \<Rightarrow> (case map_of (moduleTransformations E) m of
                         None \<Rightarrow> []
                       | Some p \<Rightarrow> [BabelPlugin p (loose vo)]))
         @ map (\<lambda>n. BabelPlugin n (loose vo)) selected
         @ (if useBuiltIns vo
            then [TransformPolyfillRequirePlugin (Some polyfillNames)
                    (''transform-regenerator'' \<in> set selected)]
            else []))"

section \<open>Properties of the requirement decision\<close>

lemma filterE_total:
  "(\<And>x. x \<in> set xs \<Longrightarrow> f x = Inr (g x)) \<Longrightarrow> filterE f xs = Inr (filter g xs)"
  by (induction xs) auto

lemma filterE_Inl:
  "filterE f xs = Inl e \<Longrightarrow> \<exists>x \<in> set xs. f x = Inl e"
  by (induction xs) (auto split: sum.splits)

lemma filterE_Inr:
  "filterE f xs = Inr ys \<Longrightarrow>
   ys = filter (\<lambda>x. f x = Inr True) xs \<and> (\<forall>x \<in> set xs. \<exists>b. f x = Inr b)"
  by (induction xs arbitrary: ys) (auto split: sum.splits if_splits)

lemma filterE_throws_iff:
  "(\<exists>err. filterE f xs = Inl err) \<longleftrightarrow> (\<exists>x \<in> set xs. \<exists>err. f x = Inl err)"
  by (induction xs) (auto split: sum.splits)

lemma js_get_absent: "k \<notin> set (Object_keys obj) \<Longrightarrow> js_get obj k = JUndefined"
  by (simp add: js_get_def Object_keys_def map_of_eq_None_iff [THEN iffD2])

lemma js_read_own: "map_of obj k = Some v \<Longrightarrow> js_read obj k = Own v"
  by (simp add: js_read_def)

lemma isPluginRequired_plain:
  "\<not> truthy (js_get T ''browsers'') \<Longrightarrow>
   isPluginRequired E T C =
     (if T = [] then Inr True
      else (case filterE (isRequiredForEnvironment E T C) (Object_keys T) of
              Inl e \<Rightarrow> Inl e
            | Inr req \<Rightarrow> Inr (req \<noteq> [])))"
  by (simp add: isPluginRequired_def Object_keys_def split: sum.splits)

lemma isRequiredForEnvironment_falsy:
  "\<not> truthy_property (js_read C e) \<Longrightarrow> isRequiredForEnvironment E T C e = Inr True"
  by (simp add: isRequiredForEnvironment_def)

lemma isRequiredForEnvironment_nonstring:
  "\<not> is_string (js_get T e) \<Longrightarrow>
   isRequiredForEnvironment E T C e = Inr (requiredFor E T C e)"
  by (cases "js_get T e") (auto simp: isRequiredForEnvironment_def requiredFor_def)

lemma isRequiredForEnvironment_returns:
  "\<not> (is_string (js_get T e) \<and> truthy_property (js_read C e)) \<Longrightarrow>
   isRequiredForEnvironment E T C e = Inr (requiredFor E T C e)"
  by (cases "is_string (js_get T e)")
     (auto simp: isRequiredForEnvironment_falsy isRequiredForEnvironment_nonstring requiredFor_def)

lemma isRequiredForEnvironment_throws:
  "js_get T e = JStr s \<Longrightarrow> truthy_property (js_read C e) \<Longrightarrow>
   isRequiredForEnvironment E T C e = Inl (TargetVersionMustBeNumber s e)"
  by (simp add: isRequiredForEnvironment_def)

lemma isRequiredForEnvironment_throws_iff:
  "(\<exists>err. isRequiredForEnvironment E T C e = Inl err) \<longleftrightarrow>
     is_string (js_get T e) \<and> truthy_property (js_read C e)"
  by (cases "js_get T e") (auto simp: isRequiredForEnvironment_def)

lemma isRequiredForEnvironment_error:
  "isRequiredForEnvironment E T C e = Inl err \<Longrightarrow>
   \<exists>s. err = TargetVersionMustBeNumber s e \<and> js_get T e = JStr s \<and>
       truthy_property (js_read C e)"
  by (cases "js_get T e") (auto simp: isRequiredForEnvironment_def split: if_splits)

lemma isPluginRequired_throws_iff:
  assumes "\<not> truthy (js_get T ''browsers'')"
  shows "(\<exists>err. isPluginRequired E T C = Inl err) \<longleftrightarrow>
           (\<exists>e \<in> set (Object_keys T). is_string (js_get T e) \<and> truthy_property (js_read C e))"
proof (cases "T = []")
  case True
  then show ?thesis
    using assms by (simp add: isPluginRequired_plain Object_keys_def)
next
  case False
  have "(\<exists>err. isPluginRequired E T C = Inl err) \<longleftrightarrow>
        (\<exists>err. filterE (isRequiredForEnvironment E T C) (Object_keys T) = Inl err)"
    using assms False by (simp add: isPluginRequired_plain split: sum.splits)
  then show ?thesis
    by (simp add: filterE_throws_iff isRequiredForEnvironment_throws_iff)
qed

lemma isPluginRequired_error:
  assumes "\<not> truthy (js_get T ''browsers'')" and "isPluginRequired E T C = Inl err"
  shows "\<exists>s e. err = TargetVersionMustBeNumber s e \<and> e \<in> set (Object_keys T) \<and>
               js_get T e = JStr s \<and> truthy_property (js_read C e)"
proof -
  have "filterE (isRequiredForEnvironment E T C) (Object_keys T) = Inl err"
    using assms by (auto simp: isPluginRequired_plain split: if_splits sum.splits)
  then obtain e where "e \<in> set (Object_keys T)" and "isRequiredForEnvironment E T C e = Inl err"
    using filterE_Inl by fastforce
  then show ?thesis
    using isRequiredForEnvironment_error by blast
qed

lemma isPluginRequired_returns:
  assumes "\<not> truthy (js_get T ''browsers'')"
    and "\<forall>e \<in> set (Object_keys T). \<not> (is_string (js_get T e) \<and> truthy_property (js_read C e))"
  shows "isPluginRequired E T C =
         Inr (T = [] \<or> filter (requiredFor E T C) (Object_keys T) \<noteq> [])"
proof -
  have "filterE (isRequiredForEnvironment E T C) (Object_keys T) =
        Inr (filter (requiredFor E T C) (Object_keys T))"
    using assms(2) by (intro filterE_total isRequiredForEnvironment_returns) blast
  then show ?thesis
    using assms(1) by (simp add: isPluginRequired_plain)
qed

lemma requiredFor_iff:
  "requiredFor E T C e \<longleftrightarrow>
     js_read C e = Absent \<or> \<not> truthy_property (js_read C e) \<or>
     js_less_than E (js_get T e) (js_read C e)"
  by (cases "js_read C e") (simp_all add: requiredFor_def)

text \<open>
  Claim C1, as the code has it. Let \<open>T\<close> be a target map with no \<^verbatim>\<open>browsers\<close> key, and
  let no environment of \<open>T\<close> have both a string version and a truthy \<^verbatim>\<open>C[e]\<close> (the call
  throws on such an environment). Here \<^verbatim>\<open>C[e]\<close> is what the code reads: the entry of
  \<open>C\<close>, or what \<^verbatim>\<open>Object.prototype\<close> has under that name. Then
  \<^verbatim>\<open>isPluginRequired(T, C)\<close> returns, and it returns true exactly when \<open>T\<close> is empty or
  for some environment \<open>e\<close> of \<open>T\<close> the value \<^verbatim>\<open>C[e]\<close> is \<^verbatim>\<open>undefined\<close>, or falsy (0 or
  NaN), or \<^verbatim>\<open>T[e] < C[e]\<close> holds; it returns false otherwise.
\<close>

theorem isPluginRequired_iff:
  assumes "''browsers'' \<notin> set (Object_keys T)"
    and "\<forall>e \<in> set (Object_keys T). \<not> (is_string (js_get T e) \<and> truthy_property (js_read C e))"
  shows "isPluginRequired E T C =
         Inr (T = [] \<or>
              (\<exists>e \<in> set (Object_keys T).
                 js_read C e = Absent \<or>
                 \<not> truthy_property (js_read C e) \<or>
                 js_less_than E (js_get T e) (js_read C e)))"
proof -
  have nb: "\<not> truthy (js_get T ''browsers'')"
    using assms(1) by (simp add: js_get_absent)
  have "(filter (requiredFor E T C) (Object_keys T) \<noteq> []) =
        (\<exists>e \<in> set (Object_keys T). requiredFor E T C e)"
    by (simp add: filter_empty_conv)
  also have "\<dots> =
        (\<exists>e \<in> set (Object_keys T).
           js_read C e = Absent \<or>
           \<not> truthy_property (js_read C e) \<or>
           js_less_than E (js_get T e) (js_read C e))"
    by (simp add: requiredFor_iff)
  finally show ?thesis
    using isPluginRequired_returns [OF nb assms(2), of E] by simp
qed

theorem isPluginRequired_iff_witness:
  "isPluginRequired example_env [(''chrome'', JNum (Fin 50)), (''ie'', JNum (Fin 8))]
     [(''chrome'', Fin 47), (''ie'', Fin 9)] = Inr True
   \<and> isPluginRequired example_env [(''chrome'', JNum (Fin 50)), (''ie'', JStr ''8'')]
       [(''chrome'', Fin 47)] = Inr True
   \<and> isPluginRequired example_env [(''chrome'', JNum (Fin 50))] [(''chrome'', Fin 47)]
       = Inr False
   \<and> isPluginRequired example_env [(''toString'', JNum (Fin 5))] [] = Inr False"
proof -
  let ?T1 = "[(''chrome'', JNum (Fin 50)), (''ie'', JNum (Fin 8))]"
  let ?C1 = "[(''chrome'', Fin 47), (''ie'', Fin 9)]"
  let ?T2 = "[(''chrome'', JNum (Fin 50)), (''ie'', JStr ''8'')]"
  let ?T3 = "[(''chrome'', JNum (Fin 50))]"
  let ?C3 = "[(''chrome'', Fin 47)]"
  let ?T4 = "[(''toString'', JNum (Fin 5))]"
  have k: "''browsers'' \<notin> set (Object_keys ?T1)" "''browsers'' \<notin> set (Object_keys ?T2)"
          "''browsers'' \<notin> set (Object_keys ?T3)" "''browsers'' \<notin> set (Object_keys ?T4)"
    by (simp_all add: Object_keys_def)
  have p1: "\<forall>e \<in> set (Object_keys ?T1).
              \<not> (is_string (js_get ?T1 e) \<and> truthy_property (js_read ?C1 e))"
    by (simp add: Object_keys_def js_get_def)
  have p2: "\<forall>e \<in> set (Object_keys ?T2).
              \<not> (is_string (js_get ?T2 e) \<and> truthy_property (js_read ?C3 e))"
    by (simp add: Object_keys_def js_get_def js_read_def Object_prototype_names_def)
  have p3: "\<forall>e \<in> set (Object_keys ?T3).
              \<not> (is_string (js_get ?T3 e) \<and> truthy_property (js_read ?C3 e))"
    by (simp add: Object_keys_def js_get_def)
  have p4: "\<forall>e \<in> set (Object_keys ?T4).
              \<not> (is_string (js_get ?T4 e) \<and> truthy_property (js_read [] e))"
    by (simp add: Object_keys_def js_get_def)
  show ?thesis
    using isPluginRequired_iff [OF k(1) p1, of example_env]
          isPluginRequired_iff [OF k(2) p2, of example_env]
          isPluginRequired_iff [OF k(3) p3, of example_env]
          isPluginRequired_iff [OF k(4) p4, of example_env]
    by (simp add: Object_keys_def js_get_def js_read_def Object_prototype_names_def js_less_than_def)
qed

text \<open>
  The claim as written fails on a 0 in the capability entry: with \<open>T = {chrome: 5}\<close> and
  \<open>C = {chrome: 0}\<close> the call returns true, although \<open>C\<close> has a version for the only
  environment and 5 is not below 0. It also fails on a string version with a truthy
  \<^verbatim>\<open>C[e]\<close>, where the call throws instead of returning.
\<close>

theorem isPluginRequired_iff_counterexample:
  "isPluginRequired example_env [(''chrome'', JNum (Fin 5))] [(''chrome'', Fin 0)] = Inr True
   \<and> Object_keys [(''chrome'', JNum (Fin 5))] = [''chrome'']
   \<and> js_read [(''chrome'', Fin 0)] ''chrome'' = Own (Fin 0)
   \<and> \<not> js_less_than example_env (js_get [(''chrome'', JNum (Fin 5))] ''chrome'') (Own (Fin 0))
   \<and> isPluginRequired example_env [(''chrome'', JStr ''50'')] [(''chrome'', Fin 51)]
       = Inl (TargetVersionMustBeNumber ''50'' ''chrome'')"
  by (simp add: isPluginRequired_def isRequiredForEnvironment_def Object_keys_def js_get_def
        js_read_def js_less_than_def)

lemma isPluginRequired_normalized:
  "isPluginRequired E T C =
     (case (if truthy (js_get T ''browsers'') then getTargets E T else Inr T) of
        Inl err \<Rightarrow> Inl err
      | Inr T' \<Rightarrow>
          if T' = [] then Inr True
          else (case filterE (isRequiredForEnvironment E T' C) (Object_keys T') of
                  Inl err \<Rightarrow> Inl err
                | Inr req \<Rightarrow> Inr (req \<noteq> [])))"
  by (simp add: isPluginRequired_def Object_keys_def split: sum.splits)

text \<open>
  Claim C9, as the code has it. Let \<open>T'\<close> be the target map that \<^verbatim>\<open>isPluginRequired\<close>
  works on: \<open>T\<close> itself, or what \<^verbatim>\<open>getTargets\<close> makes of it when \<open>T\<close> has a truthy
  \<^verbatim>\<open>browsers\<close> value. A string version makes the call throw, with the error that the
  version must be a number, exactly when \<^verbatim>\<open>C[e]\<close> is truthy for its environment: the
  call throws when some environment of \<open>T'\<close> has a string version and a truthy \<^verbatim>\<open>C[e]\<close>,
  and returns a boolean when none has. When \<^verbatim>\<open>getTargets\<close> throws, so does the call.
\<close>

theorem isPluginRequired_string_error:
  "(\<forall>T'. (if truthy (js_get T ''browsers'') then getTargets E T else Inr T) = Inr T' \<longrightarrow>
      ((\<exists>e \<in> set (Object_keys T'). is_string (js_get T' e) \<and> truthy_property (js_read C e)) \<longrightarrow>
         (\<exists>s e. isPluginRequired E T C = Inl (TargetVersionMustBeNumber s e) \<and>
                e \<in> set (Object_keys T') \<and> js_get T' e = JStr s \<and>
                truthy_property (js_read C e))) \<and>
      (\<not> (\<exists>e \<in> set (Object_keys T'). is_string (js_get T' e) \<and> truthy_property (js_read C e)) \<longrightarrow>
         (\<exists>b. isPluginRequired E T C = Inr b))) \<and>
   (\<forall>err. (if truthy (js_get T ''browsers'') then getTargets E T else Inr T) = Inl err \<longrightarrow>
      isPluginRequired E T C = Inl err)"
proof -
  let ?n = "if truthy (js_get T ''browsers'') then getTargets E T else Inr T"
  have fail: "isPluginRequired E T C = Inl err" if "?n = Inl err" for err
    using that by (simp add: isPluginRequired_normalized)
  have throws: "\<exists>s e. isPluginRequired E T C = Inl (TargetVersionMustBeNumber s e) \<and>
                e \<in> set (Object_keys T') \<and> js_get T' e = JStr s \<and>
                truthy_property (js_read C e)"
    if n: "?n = Inr T'"
      and ex: "\<exists>e \<in> set (Object_keys T'). is_string (js_get T' e) \<and> truthy_property (js_read C e)"
    for T'
  proof -
    have ne: "T' \<noteq> []"
      using ex by (auto simp: Object_keys_def)
    from ex have "\<exists>err. filterE (isRequiredForEnvironment E T' C) (Object_keys T') = Inl err"
      by (simp add: filterE_throws_iff isRequiredForEnvironment_throws_iff)
    then obtain err
      where f: "filterE (isRequiredForEnvironment E T' C) (Object_keys T') = Inl err" ..
    then obtain e
      where e: "e \<in> set (Object_keys T')" and "isRequiredForEnvironment E T' C e = Inl err"
      using filterE_Inl by fastforce
    then obtain s where "err = TargetVersionMustBeNumber s e" and "js_get T' e = JStr s"
      and "truthy_property (js_read C e)"
      using isRequiredForEnvironment_error by blast
    moreover have "isPluginRequired E T C = Inl err"
      using n ne f by (simp add: isPluginRequired_normalized)
    ultimately show ?thesis
      using e by blast
  qed
  have returns: "\<exists>b. isPluginRequired E T C = Inr b"
    if n: "?n = Inr T'"
      and no: "\<not> (\<exists>e \<in> set (Object_keys T').
                    is_string (js_get T' e) \<and> truthy_property (js_read C e))"
    for T'
  proof -
    have "filterE (isRequiredForEnvironment E T' C) (Object_keys T') =
          Inr (filter (requiredFor E T' C) (Object_keys T'))"
      using no by (intro filterE_total isRequiredForEnvironment_returns) blast
    then show ?thesis
      using n by (auto simp: isPluginRequired_normalized)
  qed
  from fail throws returns show ?thesis
    by blast
qed

theorem isPluginRequired_string_error_witness:
  "isPluginRequired example_env [(''ie'', JNum (Fin 8)), (''chrome'', JStr ''50'')]
     [(''chrome'', Fin 51)] = Inl (TargetVersionMustBeNumber ''50'' ''chrome'')
   \<and> (\<exists>b. isPluginRequired example_env [(''ie'', JNum (Fin 8)), (''chrome'', JStr ''50'')]
            [(''ie'', Fin 9)] = Inr b)"
proof -
  let ?T = "[(''ie'', JNum (Fin 8)), (''chrome'', JStr ''50'')]"
  have n: "(if truthy (js_get ?T ''browsers'') then getTargets example_env ?T else Inr ?T) = Inr ?T"
    by (simp add: js_get_def)
  have a: "\<exists>e \<in> set (Object_keys ?T).
             is_string (js_get ?T e) \<and> truthy_property (js_read [(''chrome'', Fin 51)] e)"
    by (simp add: Object_keys_def js_get_def js_read_def)
  have b: "\<not> (\<exists>e \<in> set (Object_keys ?T).
             is_string (js_get ?T e) \<and> truthy_property (js_read [(''ie'', Fin 9)] e))"
    by (simp add: Object_keys_def js_get_def js_read_def Object_prototype_names_def)
  from isPluginRequired_string_error [of ?T example_env "[(''chrome'', Fin 51)]"] n a
  obtain s e where 1: "isPluginRequired example_env ?T [(''chrome'', Fin 51)]
                        = Inl (TargetVersionMustBeNumber s e)"
    and "e \<in> set (Object_keys ?T)" and "js_get ?T e = JStr s"
    by blast
  then have "e = ''chrome'' \<and> s = ''50''"
    by (auto simp: Object_keys_def js_get_def)
  with 1 have 2: "isPluginRequired example_env ?T [(''chrome'', Fin 51)]
                    = Inl (TargetVersionMustBeNumber ''50'' ''chrome'')"
    by simp
  from isPluginRequired_string_error [of ?T example_env "[(''ie'', Fin 9)]"] n b
  have "\<exists>b. isPluginRequired example_env ?T [(''ie'', Fin 9)] = Inr b"
    by blast
  with 2 show ?thesis ..
qed

text \<open>
  The claim as written fails: with \<open>T = {chrome: "50"}\<close> the call returns true for the
  capability entries \<open>{}\<close> and \<open>{chrome: 0}\<close>.
\<close>

theorem isPluginRequired_string_error_counterexample:
  "isPluginRequired example_env [(''chrome'', JStr ''50'')] [] = Inr True
   \<and> isPluginRequired example_env [(''chrome'', JStr ''50'')] [(''chrome'', Fin 0)] = Inr True"
  by (simp add: isPluginRequired_def isRequiredForEnvironment_def Object_keys_def js_get_def
        js_read_def Object_prototype_names_def)

text \<open>
  Claim C10, as the code has it. Let \<open>T\<close> have no \<^verbatim>\<open>browsers\<close> key and let \<open>C\<close> map an
  environment \<open>e\<close> of \<open>T\<close> to 0. If no environment of \<open>T\<close> has both a string version and
  a truthy \<^verbatim>\<open>C[e']\<close> (the entry of \<open>C\<close>, or what \<^verbatim>\<open>Object.prototype\<close> has under that
  name), \<^verbatim>\<open>isPluginRequired(T, C)\<close> returns true whatever \<open>T[e]\<close> is, a string included.
  If some environment has both, the call throws the error that the version must be a
  number.
\<close>

theorem isPluginRequired_zero_entry:
  assumes "''browsers'' \<notin> set (Object_keys T)"
    and "map_of C e = Some (Fin 0)"
    and "e \<in> set (Object_keys T)"
  shows "((\<forall>e' \<in> set (Object_keys T).
            \<not> (is_string (js_get T e') \<and> truthy_property (js_read C e'))) \<longrightarrow>
          isPluginRequired E T C = Inr True) \<and>
         ((\<exists>e' \<in> set (Object_keys T).
            is_string (js_get T e') \<and> truthy_property (js_read C e')) \<longrightarrow>
          (\<exists>s e'. isPluginRequired E T C = Inl (TargetVersionMustBeNumber s e') \<and>
                  e' \<in> set (Object_keys T) \<and> js_get T e' = JStr s \<and>
                  truthy_property (js_read C e')))"
proof -
  have nb: "\<not> truthy (js_get T ''browsers'')"
    using assms(1) by (simp add: js_get_absent)
  have 1: "isPluginRequired E T C = Inr True"
    if "\<forall>e' \<in> set (Object_keys T).
          \<not> (is_string (js_get T e') \<and> truthy_property (js_read C e'))"
  proof -
    have "\<not> truthy_property (js_read C e)"
      using assms(2) by (simp add: js_read_own)
    then have "requiredFor E T C e"
      by (simp add: requiredFor_def)
    then have "filter (requiredFor E T C) (Object_keys T) \<noteq> []"
      using assms(3) by (auto simp: filter_empty_conv)
    then show ?thesis
      using isPluginRequired_returns [OF nb that, of E] by simp
  qed
  have 2: "\<exists>s e'. isPluginRequired E T C = Inl (TargetVersionMustBeNumber s e') \<and>
                  e' \<in> set (Object_keys T) \<and> js_get T e' = JStr s \<and>
                  truthy_property (js_read C e')"
    if "\<exists>e' \<in> set (Object_keys T). is_string (js_get T e') \<and> truthy_property (js_read C e')"
  proof -
    from that obtain err where "isPluginRequired E T C = Inl err"
      using isPluginRequired_throws_iff [OF nb, of E C] by blast
    then show ?thesis
      using isPluginRequired_error [OF nb] by blast
  qed
  from 1 2 show ?thesis by blast
qed

theorem isPluginRequired_zero_entry_witness:
  "isPluginRequired example_env [(''chrome'', JStr ''x''), (''ie'', JNum (Fin 11))]
     [(''chrome'', Fin 0), (''ie'', Fin 9)] = Inr True
   \<and> (\<exists>s e'. isPluginRequired example_env [(''chrome'', JNum (Fin 5)), (''toString'', JStr ''x'')]
               [(''chrome'', Fin 0)] = Inl (TargetVersionMustBeNumber s e'))"
proof -
  let ?T = "[(''chrome'', JStr ''x''), (''ie'', JNum (Fin 11))]"
  let ?C = "[(''chrome'', Fin 0), (''ie'', Fin 9)]"
  let ?T2 = "[(''chrome'', JNum (Fin 5)), (''toString'', JStr ''x'')]"
  let ?C2 = "[(''chrome'', Fin 0)]"
  have a: "''browsers'' \<notin> set (Object_keys ?T)" "''browsers'' \<notin> set (Object_keys ?T2)"
    by (simp_all add: Object_keys_def)
  have b: "map_of ?C ''chrome'' = Some (Fin 0)" "map_of ?C2 ''chrome'' = Some (Fin 0)"
    by simp_all
  have c: "''chrome'' \<in> set (Object_keys ?T)" "''chrome'' \<in> set (Object_keys ?T2)"
    by (simp_all add: Object_keys_def)
  have d: "\<forall>e' \<in> set (Object_keys ?T).
             \<not> (is_string (js_get ?T e') \<and> truthy_property (js_read ?C e'))"
    by (simp add: Object_keys_def js_get_def js_read_def)
  have e: "\<exists>e' \<in> set (Object_keys ?T2).
             is_string (js_get ?T2 e') \<and> truthy_property (js_read ?C2 e')"
    by (simp add: Object_keys_def js_get_def js_read_def Object_prototype_names_def)
  from isPluginRequired_zero_entry [OF a(1) b(1) c(1), of example_env] d
  have 1: "isPluginRequired example_env ?T ?C = Inr True"
    by blast
  from isPluginRequired_zero_entry [OF a(2) b(2) c(2), of example_env] e
  have 2: "\<exists>s e'. isPluginRequired example_env ?T2 ?C2 = Inl (TargetVersionMustBeNumber s e')"
    by blast
  from 1 2 show ?thesis ..
qed

text \<open>
  The claim as written, which has no proviso, fails: with \<open>T = {chrome: 5, ie: "8"}\<close> and
  \<open>C = {chrome: 0, ie: 9}\<close> the call throws on \<^verbatim>\<open>ie\<close>.
\<close>

theorem isPluginRequired_zero_entry_counterexample:
  "isPluginRequired example_env [(''chrome'', JNum (Fin 5)), (''ie'', JStr ''8'')]
     [(''chrome'', Fin 0), (''ie'', Fin 9)] = Inl (TargetVersionMustBeNumber ''8'' ''ie'')
   \<and> map_of [(''chrome'', Fin 0), (''ie'', Fin 9)] ''chrome'' = Some (Fin 0)
   \<and> ''chrome'' \<in> set (Object_keys [(''chrome'', JNum (Fin 5)), (''ie'', JStr ''8'')])
   \<and> ''browsers'' \<notin> set (Object_keys [(''chrome'', JNum (Fin 5)), (''ie'', JStr ''8'')])"
  by (simp add: isPluginRequired_def isRequiredForEnvironment_def Object_keys_def js_get_def
        js_read_def)

section \<open>Objects and the steps of target normalisation\<close>

lemma js_get_js_set: "js_get (js_set obj k v) k' = (if k' = k then v else js_get obj k')"
  by (simp add: js_get_def js_set_def update_conv')

lemma keys_js_set: "set (Object_keys (js_set obj k v)) = insert k (set (Object_keys obj))"
  using dom_update [of k v obj] by (simp add: Object_keys_def js_set_def)

lemma js_get_js_delete:
  "js_get (js_delete obj k) k' = (if k' = k then JUndefined else js_get obj k')"
  by (simp add: js_get_def js_delete_def delete_conv')

lemma keys_js_delete: "set (Object_keys (js_delete obj k)) = set (Object_keys obj) - {k}"
  by (auto simp: Object_keys_def js_delete_def delete_keys)

lemma foldl_assign_get:
  "js_get (foldl (\<lambda>t key. js_set t key (f key)) t ks) k =
     (if k \<in> set ks then f k else js_get t k)"
  by (induction ks arbitrary: t) (auto simp: js_get_js_set)

lemma foldl_assign_keys:
  "set (Object_keys (foldl (\<lambda>t key. js_set t key (f key)) t ks)) = set (Object_keys t) \<union> set ks"
  by (induction ks arbitrary: t) (auto simp: keys_js_set)

lemma js_get_extends:
  "js_get (extends t s) k = (if k \<in> set (Object_keys s) then js_get s k else js_get t k)"
  by (simp add: extends_def foldl_assign_get)

lemma keys_extends:
  "set (Object_keys (extends t s)) = set (Object_keys t) \<union> set (Object_keys s)"
  by (simp add: extends_def foldl_assign_keys)

lemma js_get_Nil: "js_get [] k = JUndefined"
  by (simp add: js_get_def)

lemma keys_Nil: "Object_keys [] = []"
  by (simp add: Object_keys_def)

lemma js_get_copy: "js_get (extends [] s) k = js_get s k"
  by (simp add: js_get_extends js_get_absent js_get_Nil)

lemma keys_copy: "set (Object_keys (extends [] s)) = set (Object_keys s)"
  by (simp add: keys_extends keys_Nil)

lemma mergeBrowsers_alt:
  "mergeBrowsers q t =
     foldl (\<lambda>queryObj targKey. js_set queryObj targKey (js_get t targKey)) q
       (filter (\<lambda>k. k \<noteq> ''browsers'') (Object_keys t))"
proof -
  have "foldl (\<lambda>queryObj targKey.
              if targKey \<noteq> ''browsers'' then js_set queryObj targKey (js_get t targKey)
              else queryObj) q ks =
        foldl (\<lambda>queryObj targKey. js_set queryObj targKey (js_get t targKey)) q
          (filter (\<lambda>k. k \<noteq> ''browsers'') ks)" for ks
    by (induction ks arbitrary: q) auto
  then show ?thesis by (simp add: mergeBrowsers_def)
qed

lemma js_get_mergeBrowsers:
  "js_get (mergeBrowsers q t) k =
     (if k \<in> set (Object_keys t) \<and> k \<noteq> ''browsers'' then js_get t k else js_get q k)"
  by (simp add: mergeBrowsers_alt foldl_assign_get)

lemma keys_mergeBrowsers:
  "set (Object_keys (mergeBrowsers q t)) =
     set (Object_keys q) \<union> (set (Object_keys t) - {''browsers''})"
  by (auto simp: mergeBrowsers_alt foldl_assign_keys)

lemma js_get_resolveNode:
  "js_get (resolveNode E obj) k =
     (if k = ''node'' \<and> (js_get obj ''node'' = JBool True \<or> js_get obj ''node'' = JStr ''current'')
      then JNum (nodeVersion E) else js_get obj k)"
  by (auto simp: resolveNode_def js_get_js_set getCurrentNodeVersion_def)

lemma keys_resolveNode: "set (Object_keys (resolveNode E obj)) = set (Object_keys obj)"
proof -
  have "js_get obj ''node'' \<noteq> JUndefined \<Longrightarrow> ''node'' \<in> set (Object_keys obj)"
    using js_get_absent by blast
  then show ?thesis
    by (auto simp: resolveNode_def keys_js_set)
qed

lemma rewriteElectron_skip:
  "\<not> truthy (js_get obj ''electron'') \<Longrightarrow> rewriteElectron E obj = Inr obj"
  by (simp add: rewriteElectron_def)

lemma rewriteElectron_Inr:
  assumes "truthy (js_get obj ''electron'')" and "rewriteElectron E obj = Inr P"
  shows "\<exists>v. electronVersionToChromeVersion E (js_get obj ''electron'') = Inr v \<and>
             P = js_delete (js_set obj ''chrome'' v) ''electron''"
  using assms by (auto simp: rewriteElectron_def split: sum.splits)


lemma distinct_js_set: "distinct (Object_keys obj) \<Longrightarrow> distinct (Object_keys (js_set obj k v))"
  by (simp add: Object_keys_def js_set_def distinct_update)

lemma distinct_js_delete: "distinct (Object_keys obj) \<Longrightarrow> distinct (Object_keys (js_delete obj k))"
  by (simp add: Object_keys_def js_delete_def distinct_delete)

lemma distinct_foldl_assign:
  "distinct (Object_keys t) \<Longrightarrow>
   distinct (Object_keys (foldl (\<lambda>t key. js_set t key (f key)) t ks))"
  by (induction ks arbitrary: t) (auto simp: distinct_js_set)

lemma distinct_copy: "distinct (Object_keys (extends [] s))"
  by (simp add: extends_def distinct_foldl_assign keys_Nil)

lemma distinct_mergeBrowsers:
  "distinct (Object_keys q) \<Longrightarrow> distinct (Object_keys (mergeBrowsers q t))"
  by (simp add: mergeBrowsers_alt distinct_foldl_assign)

lemma distinct_resolveNode:
  "distinct (Object_keys obj) \<Longrightarrow> distinct (Object_keys (resolveNode E obj))"
  by (simp add: resolveNode_def distinct_js_set)

lemma distinct_rewriteElectron:
  "distinct (Object_keys obj) \<Longrightarrow> rewriteElectron E obj = Inr P \<Longrightarrow> distinct (Object_keys P)"
  by (auto simp: rewriteElectron_def distinct_js_set distinct_js_delete split: if_splits sum.splits)

lemma distinct_lowestVersion:
  "distinct (Object_keys acc) \<Longrightarrow> distinct (Object_keys (lowestVersion acc r))"
  by (auto simp: lowestVersion_def Let_def distinct_js_set split: list.splits property.splits)

lemma distinct_getLowestVersions: "distinct (Object_keys (getLowestVersions rs))"
proof -
  have "distinct (Object_keys acc) \<Longrightarrow> distinct (Object_keys (foldl lowestVersion acc rs))" for acc
    by (induction rs arbitrary: acc) (auto simp: distinct_lowestVersion)
  then show ?thesis by (simp add: getLowestVersions_def keys_Nil)
qed

lemma keys_query: "Object_keys (map (\<lambda>(k, v). (k, JNum v)) caps) = Object_keys caps"
  by (induction caps) (auto simp: Object_keys_def)

lemma js_get_query:
  "js_get (map (\<lambda>(k, v). (k, JNum v)) caps) k =
     (case map_of caps k of None \<Rightarrow> JUndefined | Some v \<Rightarrow> JNum v)"
  by (induction caps) (auto simp: js_get_def)

lemma js_get_member:
  "distinct (Object_keys obj) \<Longrightarrow> (k, v) \<in> set obj \<Longrightarrow> js_get obj k = v"
  by (simp add: js_get_def Object_keys_def)

text \<open>
  The target map after the first three steps of \<^verbatim>\<open>getTargets\<close> (the copy, the node
  shorthand and the electron rewrite), and the last step on it.
\<close>

lemma processed_electron:
  "js_get (resolveNode E (extends [] T)) ''electron'' = js_get T ''electron''"
  by (simp add: js_get_resolveNode js_get_copy)

lemma processed_keeps:
  assumes "rewriteElectron E (resolveNode E (extends [] T)) = Inr P"
    and "k = ''node'' \<longrightarrow> js_get T ''node'' \<noteq> JBool True \<and> js_get T ''node'' \<noteq> JStr ''current''"
    and "k = ''electron'' \<or> k = ''chrome'' \<longrightarrow> \<not> truthy (js_get T ''electron'')"
  shows "js_get P k = js_get T k"
proof (cases "truthy (js_get T ''electron'')")
  case True
  then obtain v where "P = js_delete (js_set (resolveNode E (extends [] T)) ''chrome'' v) ''electron''"
    using rewriteElectron_Inr [OF _ assms(1)] by (auto simp: processed_electron)
  then show ?thesis
    using assms(2,3) True by (auto simp: js_get_js_delete js_get_js_set js_get_resolveNode js_get_copy)
next
  case False
  then have "P = resolveNode E (extends [] T)"
    using assms(1) by (simp add: rewriteElectron_skip processed_electron)
  then show ?thesis
    using assms(2) by (auto simp: js_get_resolveNode js_get_copy)
qed

lemma processed_keys:
  assumes "rewriteElectron E (resolveNode E (extends [] T)) = Inr P"
  shows "set (Object_keys P) =
           (if truthy (js_get T ''electron'')
            then insert ''chrome'' (set (Object_keys T)) - {''electron''}
            else set (Object_keys T))"
proof (cases "truthy (js_get T ''electron'')")
  case True
  then obtain v where "P = js_delete (js_set (resolveNode E (extends [] T)) ''chrome'' v) ''electron''"
    using rewriteElectron_Inr [OF _ assms(1)] by (auto simp: processed_electron)
  then show ?thesis
    using True by (simp add: keys_js_delete keys_js_set keys_resolveNode keys_copy)
next
  case False
  then have "P = resolveNode E (extends [] T)"
    using assms(1) by (simp add: rewriteElectron_skip processed_electron)
  then show ?thesis
    using False by (simp add: keys_resolveNode keys_copy)
qed

lemma processed_distinct:
  "rewriteElectron E (resolveNode E (extends [] T)) = Inr P \<Longrightarrow> distinct (Object_keys P)"
  by (blast intro: distinct_rewriteElectron distinct_resolveNode distinct_copy)

lemma processed_browsers:
  "rewriteElectron E (resolveNode E (extends [] T)) = Inr P \<Longrightarrow>
   js_get P ''browsers'' = js_get T ''browsers''"
  by (rule processed_keeps) simp_all

lemma getTargets_processed:
  "rewriteElectron E (resolveNode E (extends [] T)) = Inr P \<Longrightarrow>
   getTargets E T = resolveBrowsers E P"
  by (simp add: getTargets_def)

lemma getTargets_Inr_processed:
  "getTargets E T = Inr R \<Longrightarrow>
   \<exists>P. rewriteElectron E (resolveNode E (extends [] T)) = Inr P \<and> resolveBrowsers E P = Inr R"
  by (auto simp: getTargets_def split: sum.splits)

lemma resolveBrowsers_invalid:
  "\<not> isBrowsersQueryValid (js_get P ''browsers'') \<Longrightarrow> resolveBrowsers E P = Inr P"
  by (simp add: resolveBrowsers_def)

lemma resolveBrowsers_valid:
  "isBrowsersQueryValid (js_get P ''browsers'') \<Longrightarrow>
   browserslist E (js_get P ''browsers'') = Some releases \<Longrightarrow>
   resolveBrowsers E P =
     Inr (mergeBrowsers (map (\<lambda>(k, v). (k, JNum v)) (getLowestVersions releases)) P)"
  by (simp add: resolveBrowsers_def)

lemma resolveBrowsers_Inr:
  "resolveBrowsers E P = Inr R \<Longrightarrow>
   (\<not> isBrowsersQueryValid (js_get P ''browsers'') \<and> R = P) \<or>
   (isBrowsersQueryValid (js_get P ''browsers'') \<and>
    (\<exists>releases. browserslist E (js_get P ''browsers'') = Some releases \<and>
       R = mergeBrowsers (map (\<lambda>(k, v). (k, JNum v)) (getLowestVersions releases)) P))"
  by (auto simp: resolveBrowsers_def Let_def split: if_splits option.splits)

lemma resolveBrowsers_Inl:
  "resolveBrowsers E P = Inl err \<Longrightarrow> err = BrowserslistError"
  by (auto simp: resolveBrowsers_def Let_def split: if_splits option.splits)

lemma resolveBrowsers_keeps:
  assumes "resolveBrowsers E P = Inr R" and "k \<in> set (Object_keys P)" and "k \<noteq> ''browsers''"
  shows "js_get R k = js_get P k"
  using resolveBrowsers_Inr [OF assms(1)] assms(2,3) by (auto simp: js_get_mergeBrowsers)

section \<open>The lowest versions of a list of releases\<close>

lemma split_space_nonempty: "split_space s \<noteq> []"
  by (induction s) (auto split: list.splits)

lemma round_double_cases:
  "round_double i = PosInf \<or> round_double i = NegInf \<or> (\<exists>k::int. round_double i = Fin (of_int k))"
  by (simp only: round_double_def Let_def split: if_split) blast

lemma parseInt_cases:
  "parseInt s = NaN \<or> parseInt s = PosInf \<or> parseInt s = NegInf \<or>
   (\<exists>k::int. parseInt s = Fin (of_int k))"
  using round_double_cases by (simp only: parseInt_def Let_def split: if_split) blast

lemma num_lt_irrefl: "\<not> num_lt a a"
  by (cases a) simp_all

lemma num_lt_trans: "num_lt a b \<Longrightarrow> num_lt b c \<Longrightarrow> num_lt a c"
  by (cases a; cases b; cases c) simp_all

lemma num_lt_NaN: "\<not> num_lt a NaN"
  by (cases a) simp_all

lemma Math_min_numbers:
  "a \<noteq> NaN \<Longrightarrow> b \<noteq> NaN \<Longrightarrow> Math_min a b = (if num_lt b a then b else a)"
  by (cases a; cases b) simp_all

lemma Math_min_PosInf: "b \<noteq> NaN \<Longrightarrow> Math_min PosInf b = b"
  by (cases b) simp_all

lemma truthy_num_iff: "truthy_num v \<longleftrightarrow> v \<noteq> NaN \<and> v \<noteq> Fin 0"
  by (cases v) auto

lemma browserNameMap_names:
  "map_of browserNameMap x = Some n \<Longrightarrow>
   n \<in> {''chrome'', ''edge'', ''firefox'', ''ie'', ''ios'', ''safari''}"
  by (auto simp: browserNameMap_def split: if_splits)

lemma browserNameMap_not_inherited:
  "map_of browserNameMap x = Some n \<Longrightarrow> n \<notin> set Object_prototype_names"
  by (drule browserNameMap_names) (auto simp: Object_prototype_names_def)

lemma js_read_plain:
  "k \<notin> set Object_prototype_names \<Longrightarrow>
   js_read obj k = (case map_of obj k of None \<Rightarrow> Absent | Some v \<Rightarrow> Own v)"
  by (simp add: js_read_def split: option.splits)

lemma lowestVersion_unfold:
  "lowestVersion acc r =
     (case js_read browserNameMap (releaseName r) of
        Absent \<Rightarrow> acc
      | normalizedBrowserName \<Rightarrow>
          if releaseVersion r \<noteq> NaN then
            (let key = (case normalizedBrowserName of
                          Own n \<Rightarrow> n
                        | Inherited k \<Rightarrow> inheritedString k
                        | Absent \<Rightarrow> [])
             in js_set acc key
                  (Math_min
                     (case js_read acc key of
                        Absent \<Rightarrow> PosInf
                      | Own v \<Rightarrow> if truthy_num v then v else PosInf
                      | Inherited k \<Rightarrow> NaN)
                     (releaseVersion r)))
          else acc)"
  using split_space_nonempty [of r]
  by (auto simp: lowestVersion_def releaseName_def releaseVersion_def Let_def
           split: list.splits property.splits)

lemma lowestVersion_alt:
  assumes "releaseName r \<notin> set Object_prototype_names"
  shows "lowestVersion acc r =
     (case map_of browserNameMap (releaseName r) of
        None \<Rightarrow> acc
      | Some n \<Rightarrow>
          if releaseVersion r \<noteq> NaN then
            js_set acc n
              (Math_min (case map_of acc n of
                           None \<Rightarrow> PosInf
                         | Some w \<Rightarrow> if truthy_num w then w else PosInf)
                 (releaseVersion r))
          else acc)"
proof (cases "map_of browserNameMap (releaseName r)")
  case None
  then show ?thesis
    using assms by (simp add: lowestVersion_unfold js_read_plain)
next
  case (Some n)
  then have "n \<notin> set Object_prototype_names"
    by (rule browserNameMap_not_inherited)
  then have "js_read acc n = (case map_of acc n of None \<Rightarrow> Absent | Some v \<Rightarrow> Own v)"
    by (rule js_read_plain)
  then show ?thesis
    using assms Some by (simp add: lowestVersion_unfold js_read_plain split: option.splits)
qed

lemma getLowestVersions_snoc:
  "getLowestVersions (rs @ [r]) = lowestVersion (getLowestVersions rs) r"
  by (simp add: getLowestVersions_def)

lemma survivingVersions_snoc:
  "survivingVersions n (rs @ [r]) =
     survivingVersions n rs @
       (if map_of browserNameMap (releaseName r) = Some n \<and> releaseVersion r \<noteq> NaN
        then [releaseVersion r] else [])"
  by (simp add: survivingVersions_def)

lemma survivingVersions_numbers: "NaN \<notin> set (survivingVersions n rs)"
  by (auto simp: survivingVersions_def)

lemma map_of_js_set: "map_of (js_set obj k v) = (map_of obj)(k \<mapsto> v)"
  by (simp add: js_set_def update_conv')

lemma map_of_lowestVersion_other:
  "releaseName r \<notin> set Object_prototype_names \<Longrightarrow>
   map_of browserNameMap (releaseName r) \<noteq> Some n \<or> releaseVersion r = NaN \<Longrightarrow>
   map_of (lowestVersion acc r) n = map_of acc n"
  by (auto simp: lowestVersion_alt map_of_js_set split: option.splits)

lemma map_of_lowestVersion_hit:
  "releaseName r \<notin> set Object_prototype_names \<Longrightarrow>
   map_of browserNameMap (releaseName r) = Some n \<Longrightarrow> releaseVersion r \<noteq> NaN \<Longrightarrow>
   map_of (lowestVersion acc r) n =
     Some (Math_min (case map_of acc n of
                       None \<Rightarrow> PosInf
                     | Some w \<Rightarrow> if truthy_num w then w else PosInf) (releaseVersion r))"
  by (simp add: lowestVersion_alt map_of_js_set)

lemma getLowestVersions_dom:
  "\<forall>r \<in> set rs. releaseName r \<notin> set Object_prototype_names \<Longrightarrow>
   (map_of (getLowestVersions rs) n = None) = (survivingVersions n rs = [])"
proof (induction rs rule: rev_induct)
  case Nil
  show ?case by (simp add: getLowestVersions_def survivingVersions_def)
next
  case (snoc r rs)
  then have r: "releaseName r \<notin> set Object_prototype_names"
    and IH: "(map_of (getLowestVersions rs) n = None) = (survivingVersions n rs = [])"
    by simp_all
  show ?case
  proof (cases "map_of browserNameMap (releaseName r) = Some n \<and> releaseVersion r \<noteq> NaN")
    case False
    then have "map_of (lowestVersion (getLowestVersions rs) r) n = map_of (getLowestVersions rs) n"
      using r by (intro map_of_lowestVersion_other) auto
    with False IH show ?thesis
      by (auto simp: getLowestVersions_snoc survivingVersions_snoc)
  next
    case True
    then show ?thesis
      using r by (simp add: getLowestVersions_snoc survivingVersions_snoc map_of_lowestVersion_hit)
  qed
qed

lemma getLowestVersions_min:
  "\<forall>r \<in> set rs. releaseName r \<notin> set Object_prototype_names \<Longrightarrow>
   Fin 0 \<notin> set (survivingVersions n rs) \<Longrightarrow> survivingVersions n rs \<noteq> [] \<Longrightarrow>
   \<exists>v. map_of (getLowestVersions rs) n = Some v \<and> v \<in> set (survivingVersions n rs) \<and>
       (\<forall>w \<in> set (survivingVersions n rs). \<not> num_lt w v)"
proof (induction rs rule: rev_induct)
  case Nil
  then show ?case by (simp add: survivingVersions_def)
next
  case (snoc r rs)
  let ?S = "survivingVersions n rs"
  have r: "releaseName r \<notin> set Object_prototype_names"
    and names: "\<forall>r \<in> set rs. releaseName r \<notin> set Object_prototype_names"
    using snoc.prems(1) by simp_all
  have z: "Fin 0 \<notin> set ?S"
    using snoc.prems(2) by (simp add: survivingVersions_snoc)
  show ?case
  proof (cases "map_of browserNameMap (releaseName r) = Some n \<and> releaseVersion r \<noteq> NaN")
    case False
    then have "map_of (lowestVersion (getLowestVersions rs) r) n = map_of (getLowestVersions rs) n"
      using r by (intro map_of_lowestVersion_other) auto
    moreover have "survivingVersions n (rs @ [r]) = ?S"
      using False by (simp add: survivingVersions_snoc)
    ultimately show ?thesis
      using snoc.IH [OF names z] snoc.prems(3) by (simp add: getLowestVersions_snoc)
  next
    case True
    let ?p = "releaseVersion r"
    have S': "survivingVersions n (rs @ [r]) = ?S @ [?p]"
      using True by (simp add: survivingVersions_snoc)
    have p: "?p \<noteq> NaN" "?p \<noteq> Fin 0"
      using True snoc.prems(2) by (auto simp: S')
    have new: "map_of (getLowestVersions (rs @ [r])) n =
        Some (Math_min (case map_of (getLowestVersions rs) n of
                          None \<Rightarrow> PosInf
                        | Some w \<Rightarrow> if truthy_num w then w else PosInf) ?p)"
      using True r by (simp add: getLowestVersions_snoc map_of_lowestVersion_hit)
    show ?thesis
    proof (cases "?S = []")
      case True
      then have "map_of (getLowestVersions rs) n = None"
        using names by (simp add: getLowestVersions_dom)
      then have "map_of (getLowestVersions (rs @ [r])) n = Some ?p"
        using new p(1) by (simp add: Math_min_PosInf)
      then show ?thesis
        using True by (simp add: S' num_lt_irrefl)
    next
      case False
      from snoc.IH [OF names z False] obtain v
        where old: "map_of (getLowestVersions rs) n = Some v" and v: "v \<in> set ?S"
          and least: "\<forall>w \<in> set ?S. \<not> num_lt w v"
        by blast
      have vn: "v \<noteq> NaN" "v \<noteq> Fin 0"
        using v z survivingVersions_numbers [of n rs] by auto
      then have "truthy_num v"
        by (simp add: truthy_num_iff)
      then have val: "map_of (getLowestVersions (rs @ [r])) n =
                      Some (if num_lt ?p v then ?p else v)"
        using new old vn(1) p(1) by (simp add: Math_min_numbers)
      show ?thesis
      proof (cases "num_lt ?p v")
        case True
        have "\<not> num_lt w ?p" if "w \<in> set ?S" for w
          using least that True num_lt_trans by blast
        then show ?thesis
          using val True by (auto simp: S' num_lt_irrefl)
      next
        case False
        then show ?thesis
          using val v least by (auto simp: S')
      qed
    qed
  qed
qed

lemma keys_getLowestVersions:
  assumes "\<forall>r \<in> set rs. releaseName r \<notin> set Object_prototype_names"
  shows "set (Object_keys (getLowestVersions rs)) = {n. survivingVersions n rs \<noteq> []}"
proof -
  have "n \<in> set (Object_keys (getLowestVersions rs)) \<longleftrightarrow> map_of (getLowestVersions rs) n \<noteq> None" for n
    by (simp add: Object_keys_def map_of_eq_None_iff)
  then show ?thesis
    using assms by (auto simp: getLowestVersions_dom)
qed

lemma survivingVersions_integers:
  "v \<in> set (survivingVersions n rs) \<Longrightarrow>
   v = PosInf \<or> v = NegInf \<or> (\<exists>k::int. v = Fin (of_int k))"
  using parseInt_cases by (auto simp: survivingVersions_def releaseVersion_def)

text \<open>
  Whatever the releases are, a key of the result is a name of the table or the string of
  an inherited value, so never \<^verbatim>\<open>electron\<close> or \<^verbatim>\<open>browsers\<close>.
\<close>

lemma keys_lowestVersion:
  "set (Object_keys (lowestVersion acc r)) \<subseteq>
     set (Object_keys acc) \<union> snd ` set browserNameMap \<union> inheritedString ` set Object_prototype_names"
proof (cases "js_read browserNameMap (releaseName r)")
  case Absent
  then show ?thesis by (auto simp: lowestVersion_unfold)
next
  case (Own n)
  then have "map_of browserNameMap (releaseName r) = Some n"
    by (auto simp: js_read_def split: option.splits if_splits)
  then have "(releaseName r, n) \<in> set browserNameMap"
    by (rule map_of_SomeD)
  then have "n \<in> snd ` set browserNameMap"
    by force
  then show ?thesis
    using Own by (auto simp: lowestVersion_unfold keys_js_set Let_def)
next
  case (Inherited k)
  then have "k \<in> set Object_prototype_names"
    by (auto simp: js_read_def split: option.splits if_splits)
  then show ?thesis
    using Inherited by (auto simp: lowestVersion_unfold keys_js_set Let_def)
qed

lemma keys_getLowestVersions_subset:
  "set (Object_keys (getLowestVersions rs)) \<subseteq>
     snd ` set browserNameMap \<union> inheritedString ` set Object_prototype_names"
proof (induction rs rule: rev_induct)
  case Nil
  show ?case by (simp add: getLowestVersions_def Object_keys_def)
next
  case (snoc r rs)
  then show ?case
    using keys_lowestVersion [of "getLowestVersions rs" r]
    by (auto simp: getLowestVersions_snoc)
qed

lemma keys_getLowestVersions_names:
  "''electron'' \<notin> set (Object_keys (getLowestVersions rs))"
  "''browsers'' \<notin> set (Object_keys (getLowestVersions rs))"
proof -
  have "''electron'' \<notin> snd ` set browserNameMap \<union> inheritedString ` set Object_prototype_names"
       "''browsers'' \<notin> snd ` set browserNameMap \<union> inheritedString ` set Object_prototype_names"
    by (simp_all add: browserNameMap_def Object_prototype_names_def inheritedString_def)
  then show "''electron'' \<notin> set (Object_keys (getLowestVersions rs))"
    and "''browsers'' \<notin> set (Object_keys (getLowestVersions rs))"
    using keys_getLowestVersions_subset [of rs] by blast+
qed

section \<open>Properties of target normalisation\<close>

lemma processed_cases:
  assumes "rewriteElectron E (resolveNode E (extends [] T)) = Inr P"
  obtains (rewritten) v where "truthy (js_get T ''electron'')"
      and "electronVersionToChromeVersion E (js_get T ''electron'') = Inr v"
      and "P = js_delete (js_set (resolveNode E (extends [] T)) ''chrome'' v) ''electron''"
  | (plain) "\<not> truthy (js_get T ''electron'')" and "P = resolveNode E (extends [] T)"
proof (cases "truthy (js_get T ''electron'')")
  case True
  with rewriteElectron_Inr [OF _ assms] rewritten show ?thesis
    by (auto simp: processed_electron)
next
  case False
  with assms plain show ?thesis
    by (simp add: rewriteElectron_skip processed_electron)
qed

lemma electronVersionToChromeVersion_Inr:
  "electronVersionToChromeVersion E x = Inr v \<Longrightarrow>
   truthy v \<and> (\<exists>m. v = js_get (electronToChromium E) m)"
  by (auto simp: electronVersionToChromeVersion_def Let_def split: option.splits if_splits)

lemma query_value_number:
  "k \<in> set (Object_keys caps) \<Longrightarrow> is_number (js_get (map (\<lambda>(k, v). (k, JNum v)) caps) k)"
proof -
  assume "k \<in> set (Object_keys caps)"
  then have "map_of caps k \<noteq> None"
    by (simp add: Object_keys_def map_of_eq_None_iff)
  then show ?thesis
    by (auto simp: js_get_query)
qed

text \<open>
  Claim C8, as the code has it. Let the raw target map have a truthy \<^verbatim>\<open>electron\<close> value
  if it has the key, a string or an array under \<^verbatim>\<open>browsers\<close> if it has the key, and
  under every other key a number (or, under \<^verbatim>\<open>node\<close>, \<^verbatim>\<open>true\<close> or \<^verbatim>\<open>"current"\<close>);
  let the values of the translation table be numbers. Then a map returned by
  \<^verbatim>\<open>getTargets\<close> has no \<^verbatim>\<open>electron\<close> key, no \<^verbatim>\<open>browsers\<close> key, and only numbers as
  values.
\<close>

theorem getTargets_canonical:
  assumes g: "getTargets E T = Inr R"
    and vals: "\<forall>k \<in> set (Object_keys T). k \<noteq> ''browsers'' \<and> k \<noteq> ''electron'' \<longrightarrow>
                 is_number (js_get T k) \<or>
                 (k = ''node'' \<and> (js_get T k = JBool True \<or> js_get T k = JStr ''current''))"
    and el: "''electron'' \<in> set (Object_keys T) \<longrightarrow> truthy (js_get T ''electron'')"
    and br: "''browsers'' \<in> set (Object_keys T) \<longrightarrow> isBrowsersQueryValid (js_get T ''browsers'')"
    and tbl: "\<forall>m \<in> set (Object_keys (electronToChromium E)).
                 is_number (js_get (electronToChromium E) m)"
  shows "''electron'' \<notin> set (Object_keys R) \<and> ''browsers'' \<notin> set (Object_keys R) \<and>
         (\<forall>(k, v) \<in> set R. is_number v)"
proof -
  from getTargets_Inr_processed [OF g] obtain P
    where P: "rewriteElectron E (resolveNode E (extends [] T)) = Inr P"
      and rb: "resolveBrowsers E P = Inr R" by blast
  have Pel: "''electron'' \<notin> set (Object_keys P)"
    using el by (auto simp: processed_keys [OF P] split: if_splits)
  have Pnum: "is_number (js_get P k)" if "k \<in> set (Object_keys P)" and "k \<noteq> ''browsers''" for k
  proof -
    have node: "is_number (js_get (resolveNode E (extends [] T)) k)"
      if "k \<in> set (Object_keys T)" and "k \<noteq> ''electron''"
      using vals that \<open>k \<noteq> ''browsers''\<close> by (auto simp: js_get_resolveNode js_get_copy)
    from P show ?thesis
    proof (cases rule: processed_cases)
      case (rewritten v)
      from electronVersionToChromeVersion_Inr [OF rewritten(2)] obtain m
        where "truthy v" and v: "v = js_get (electronToChromium E) m" by blast
      then have "m \<in> set (Object_keys (electronToChromium E))"
        using js_get_absent [of m "electronToChromium E"] by (cases "m \<in> set (Object_keys (electronToChromium E))") auto
      then have "is_number v"
        using tbl v by simp
      moreover have "k \<noteq> ''electron''"
        using Pel that(1) by auto
      moreover have "k \<noteq> ''chrome'' \<Longrightarrow> k \<in> set (Object_keys T)"
        using that(1) rewritten(1) by (simp add: processed_keys [OF P])
      ultimately show ?thesis
        using node by (auto simp: rewritten(3) js_get_js_delete js_get_js_set)
    next
      case plain
      have "k \<in> set (Object_keys T)"
        using that(1) plain(1) by (simp add: processed_keys [OF P])
      moreover have "k \<noteq> ''electron''"
        using Pel that(1) by auto
      ultimately show ?thesis
        using node by (simp add: plain(2))
    qed
  qed
  have Pbr: "''browsers'' \<in> set (Object_keys P) \<Longrightarrow> isBrowsersQueryValid (js_get P ''browsers'')"
    using br by (auto simp: processed_keys [OF P] processed_browsers [OF P] split: if_splits)
  have dP: "distinct (Object_keys P)"
    using P by (rule processed_distinct)
  from resolveBrowsers_Inr [OF rb]
  have R: "''electron'' \<notin> set (Object_keys R) \<and> ''browsers'' \<notin> set (Object_keys R) \<and>
           distinct (Object_keys R) \<and> (\<forall>k \<in> set (Object_keys R). is_number (js_get R k))"
  proof
    assume "\<not> isBrowsersQueryValid (js_get P ''browsers'') \<and> R = P"
    then show ?thesis
      using Pel Pbr Pnum dP by auto
  next
    assume "isBrowsersQueryValid (js_get P ''browsers'') \<and>
      (\<exists>releases. browserslist E (js_get P ''browsers'') = Some releases \<and>
         R = mergeBrowsers (map (\<lambda>(k, v). (k, JNum v)) (getLowestVersions releases)) P)"
    then obtain releases
      where R: "R = mergeBrowsers (map (\<lambda>(k, v). (k, JNum v)) (getLowestVersions releases)) P"
      by blast
    let ?q = "getLowestVersions releases"
    have k1: "''electron'' \<notin> set (Object_keys R)"
      using Pel keys_getLowestVersions_names(1) [of releases]
      by (auto simp: R keys_mergeBrowsers keys_query)
    have k2: "''browsers'' \<notin> set (Object_keys R)"
      using keys_getLowestVersions_names(2) [of releases]
      by (auto simp: R keys_mergeBrowsers keys_query)
    have k3: "distinct (Object_keys R)"
      by (simp add: R distinct_mergeBrowsers keys_query distinct_getLowestVersions)
    have k4: "is_number (js_get R k)" if "k \<in> set (Object_keys R)" for k
    proof (cases "k \<in> set (Object_keys P) \<and> k \<noteq> ''browsers''")
      case True
      then show ?thesis
        using Pnum by (simp add: R js_get_mergeBrowsers)
    next
      case False
      then have "k \<in> set (Object_keys ?q)"
        using that by (auto simp: R keys_mergeBrowsers keys_query)
      then show ?thesis
        using False query_value_number [of k ?q] by (auto simp: R js_get_mergeBrowsers)
    qed
    show ?thesis
      using k1 k2 k3 k4 by blast
  qed
  have "is_number v" if "(k, v) \<in> set R" for k v
  proof -
    have "k \<in> set (Object_keys R)"
      using that by (force simp: Object_keys_def)
    moreover have "js_get R k = v"
      using R that by (simp add: js_get_member)
    ultimately show ?thesis
      using R by auto
  qed
  then show ?thesis
    using R by auto
qed


theorem getTargets_canonical_witness:
  "getTargets example_env
     [(''node'', JBool True), (''electron'', JStr ''1''),
      (''browsers'', JArr [JStr ''chrome 50'', JStr ''ie 8'']), (''firefox'', JNum (Fin 45))]
     = Inr [(''chrome'', JNum (Fin 49)), (''ie'', JNum (Fin 8)), (''node'', JNum (Fin 6)),
            (''firefox'', JNum (Fin 45))]
   \<and> ''electron'' \<notin> set (Object_keys [(''chrome'', JNum (Fin 49)), (''ie'', JNum (Fin 8)),
                         (''node'', JNum (Fin 6)), (''firefox'', JNum (Fin 45))])
   \<and> ''browsers'' \<notin> set (Object_keys [(''chrome'', JNum (Fin 49)), (''ie'', JNum (Fin 8)),
                         (''node'', JNum (Fin 6)), (''firefox'', JNum (Fin 45))])
   \<and> list_all (\<lambda>(k, v). is_number v)
        [(''chrome'', JNum (Fin 49)), (''ie'', JNum (Fin 8)), (''node'', JNum (Fin 6)),
         (''firefox'', JNum (Fin 45))]"
proof -
  let ?T = "[(''node'', JBool True), (''electron'', JStr ''1''),
      (''browsers'', JArr [JStr ''chrome 50'', JStr ''ie 8'']), (''firefox'', JNum (Fin 45))]"
  let ?R = "[(''chrome'', JNum (Fin 49)), (''ie'', JNum (Fin 8)), (''node'', JNum (Fin 6)),
            (''firefox'', JNum (Fin 45))]"
  have g: "getTargets example_env ?T = Inr ?R"
    by code_simp
  have vals: "\<forall>k \<in> set (Object_keys ?T). k \<noteq> ''browsers'' \<and> k \<noteq> ''electron'' \<longrightarrow>
                 is_number (js_get ?T k) \<or>
                 (k = ''node'' \<and> (js_get ?T k = JBool True \<or> js_get ?T k = JStr ''current''))"
    by (simp add: Object_keys_def js_get_def)
  have el: "''electron'' \<in> set (Object_keys ?T) \<longrightarrow> truthy (js_get ?T ''electron'')"
    by (simp add: js_get_def)
  have br: "''browsers'' \<in> set (Object_keys ?T) \<longrightarrow> isBrowsersQueryValid (js_get ?T ''browsers'')"
    by (simp add: js_get_def)
  have tbl: "\<forall>m \<in> set (Object_keys (electronToChromium example_env)).
                 is_number (js_get (electronToChromium example_env) m)"
    by (simp add: example_env_def Object_keys_def js_get_def)
  from getTargets_canonical [OF g vals el br tbl] g show ?thesis
    by (simp add: list_all_iff)
qed

text \<open>
  Without these conditions the claim fails: \<^verbatim>\<open>getTargets\<close> checks no value, deletes
  \<^verbatim>\<open>electron\<close> only when its value is truthy and leaves a \<^verbatim>\<open>browsers\<close> value that is
  neither a string nor an array in place.
\<close>

theorem getTargets_canonical_counterexample:
  "getTargets example_env
     [(''electron'', JNum (Fin 0)), (''browsers'', JNum (Fin 42)), (''chrome'', JStr ''50'')]
   = Inr [(''electron'', JNum (Fin 0)), (''browsers'', JNum (Fin 42)), (''chrome'', JStr ''50'')]"
  by code_simp

lemma electronVersionToChromeVersion_Inl:
  "electronVersionToChromeVersion E x = Inl err \<Longrightarrow>
   err = ElectronMustBeSemver \<or> (\<exists>m. err = ElectronTooOldOrNew m)"
  by (auto simp: electronVersionToChromeVersion_def Let_def split: option.splits if_splits)

lemma getTargets_Inl:
  assumes "getTargets E T = Inl err"
  shows "(truthy (js_get T ''electron'') \<and>
          electronVersionToChromeVersion E (js_get T ''electron'') = Inl err) \<or>
         (err = BrowserslistError \<and> isBrowsersQueryValid (js_get T ''browsers'') \<and>
          browserslist E (js_get T ''browsers'') = None)"
proof (cases "rewriteElectron E (resolveNode E (extends [] T))")
  case (Inl e)
  then show ?thesis
    using assms
    by (auto simp: getTargets_def rewriteElectron_def processed_electron split: if_splits sum.splits)
next
  case (Inr P)
  then have "resolveBrowsers E P = Inl err"
    using assms by (simp add: getTargets_def)
  then show ?thesis
    using processed_browsers [OF Inr]
    by (auto simp: resolveBrowsers_def Let_def split: if_splits option.splits)
qed

lemma getTargets_electron_fails:
  "truthy (js_get T ''electron'') \<Longrightarrow>
   electronVersionToChromeVersion E (js_get T ''electron'') = Inl err \<Longrightarrow>
   getTargets E T = Inl err"
  by (simp add: getTargets_def rewriteElectron_def processed_electron)

lemma getTargets_succeeds:
  assumes "truthy (js_get T ''electron'') \<longrightarrow>
             (\<exists>v. electronVersionToChromeVersion E (js_get T ''electron'') = Inr v)"
    and "isBrowsersQueryValid (js_get T ''browsers'') \<longrightarrow>
             browserslist E (js_get T ''browsers'') \<noteq> None"
  shows "\<exists>R. getTargets E T = Inr R"
proof (cases "getTargets E T")
  case (Inl err)
  from getTargets_Inl [OF this] assms show ?thesis by auto
next
  case (Inr R)
  then show ?thesis by blast
qed

text \<open>
  Claim C7, as the code has it. \<^verbatim>\<open>getTargets\<close> does not look at the type of a version:
  it never throws the error about a version that is not a number. For a raw target map
  with a string \<open>s\<close> under a key \<open>k\<close> other than \<^verbatim>\<open>browsers\<close> and \<^verbatim>\<open>electron\<close> (and
  not \<^verbatim>\<open>"current"\<close> under \<^verbatim>\<open>node\<close>, nor \<^verbatim>\<open>chrome\<close> next to a truthy \<^verbatim>\<open>electron\<close>,
  which the electron rewrite overwrites), every map it returns still has \<open>s\<close> under
  \<open>k\<close>, and it does return when the electron rewrite and the resolver succeed. It is
  \<^verbatim>\<open>isPluginRequired\<close> that throws afterwards, on the returned map (when no truthy
  \<^verbatim>\<open>browsers\<close> value is left in it), for every capability entry with a truthy version
  for \<open>k\<close>.
\<close>

theorem getTargets_keeps_string:
  assumes "js_get T k = JStr s"
    and "k \<noteq> ''browsers''" and "k \<noteq> ''electron''"
    and "k = ''node'' \<longrightarrow> s \<noteq> ''current''"
    and "k = ''chrome'' \<longrightarrow> \<not> truthy (js_get T ''electron'')"
  shows "(\<forall>a b. getTargets E T \<noteq> Inl (TargetVersionMustBeNumber a b)) \<and>
         (\<forall>R. getTargets E T = Inr R \<longrightarrow> js_get R k = JStr s) \<and>
         ((truthy (js_get T ''electron'') \<longrightarrow>
             (\<exists>v. electronVersionToChromeVersion E (js_get T ''electron'') = Inr v)) \<and>
          (isBrowsersQueryValid (js_get T ''browsers'') \<longrightarrow>
             browserslist E (js_get T ''browsers'') \<noteq> None) \<longrightarrow>
          (\<exists>R. getTargets E T = Inr R \<and> js_get R k = JStr s)) \<and>
         (\<forall>R C c. getTargets E T = Inr R \<and> \<not> truthy (js_get R ''browsers'') \<and>
                   map_of C k = Some c \<and> truthy_num c \<longrightarrow>
                   (\<exists>err. isPluginRequired E R C = Inl err))"
proof -
  have 1: "getTargets E T \<noteq> Inl (TargetVersionMustBeNumber a b)" for a b
  proof
    assume "getTargets E T = Inl (TargetVersionMustBeNumber a b)"
    from getTargets_Inl [OF this] show False
      using electronVersionToChromeVersion_Inl by fastforce
  qed
  have 2: "js_get R k = JStr s" if "getTargets E T = Inr R" for R
  proof -
    from getTargets_Inr_processed [OF that] obtain P
      where P: "rewriteElectron E (resolveNode E (extends [] T)) = Inr P"
        and rb: "resolveBrowsers E P = Inr R" by blast
    have "k = ''node'' \<longrightarrow>
            js_get T ''node'' \<noteq> JBool True \<and> js_get T ''node'' \<noteq> JStr ''current''"
      using assms(1,4) by auto
    moreover have "k = ''electron'' \<or> k = ''chrome'' \<longrightarrow> \<not> truthy (js_get T ''electron'')"
      using assms(3,5) by auto
    ultimately have "js_get P k = js_get T k"
      by (rule processed_keeps [OF P])
    then have Pk: "js_get P k = JStr s"
      using assms(1) by simp
    then have "k \<in> set (Object_keys P)"
      using js_get_absent [of k P] by (cases "k \<in> set (Object_keys P)") auto
    then show ?thesis
      using resolveBrowsers_keeps [OF rb, of k] assms(2) Pk by simp
  qed
  have 3: "\<exists>err. isPluginRequired E R C = Inl err"
    if g: "getTargets E T = Inr R" and nb: "\<not> truthy (js_get R ''browsers'')"
      and c: "map_of C k = Some c" "truthy_num c" for R C c
  proof -
    have Rk: "js_get R k = JStr s"
      using g by (rule 2)
    then have "k \<in> set (Object_keys R)"
      using js_get_absent [of k R] by (cases "k \<in> set (Object_keys R)") auto
    moreover have "is_string (js_get R k)"
      using Rk by simp
    moreover have "truthy_property (js_read C k)"
      using c by (simp add: js_read_own)
    ultimately show ?thesis
      by (auto simp: isPluginRequired_throws_iff [OF nb])
  qed
  from 1 2 3 getTargets_succeeds [of T E] show ?thesis
    by blast
qed

theorem getTargets_keeps_string_witness:
  "getTargets example_env [(''ie'', JStr ''8''), (''browsers'', JStr ''chrome 50'')]
     \<noteq> Inl (TargetVersionMustBeNumber ''8'' ''ie'')
   \<and> (\<exists>R. getTargets example_env [(''ie'', JStr ''8''), (''browsers'', JStr ''chrome 50'')] = Inr R
          \<and> js_get R ''ie'' = JStr ''8'')"
proof -
  let ?T = "[(''ie'', JStr ''8''), (''browsers'', JStr ''chrome 50'')]"
  have a: "js_get ?T ''ie'' = JStr ''8''" by (simp add: js_get_def)
  have b: "''ie'' \<noteq> ''browsers''" "''ie'' \<noteq> ''electron''" by simp_all
  have c: "''ie'' = ''node'' \<longrightarrow> ''8'' \<noteq> ''current''"
          "''ie'' = ''chrome'' \<longrightarrow> \<not> truthy (js_get ?T ''electron'')" by simp_all
  have d: "truthy (js_get ?T ''electron'') \<longrightarrow>
             (\<exists>v. electronVersionToChromeVersion example_env (js_get ?T ''electron'') = Inr v)"
    by (simp add: js_get_def)
  have e: "isBrowsersQueryValid (js_get ?T ''browsers'') \<longrightarrow>
             browserslist example_env (js_get ?T ''browsers'') \<noteq> None"
    by (simp add: js_get_def example_env_def)
  from getTargets_keeps_string [OF a b c, of example_env] d e show ?thesis
    by blast
qed

text \<open>
  The claim as written fails: \<open>{chrome: "50", node: "6"}\<close> is returned as it is.
\<close>

theorem getTargets_keeps_string_counterexample:
  "getTargets example_env [(''chrome'', JStr ''50''), (''node'', JStr ''6'')]
     = Inr [(''chrome'', JStr ''50''), (''node'', JStr ''6'')]"
  by code_simp

text \<open>
  Claim C4. Let the releases be such as the resolver gives: no release has a property name
  of \<^verbatim>\<open>Object.prototype\<close> for its name, and no release that survives has the version 0
  (browser names are names of browsers and their versions count from 1). Then
  \<^verbatim>\<open>getLowestVersions\<close> keeps exactly the normalised names of the releases whose name is in
  \<^verbatim>\<open>browserNameMap\<close> and whose version parses; the parsed versions are integers (or an
  infinity, for a run of digits beyond the range of a double); and each kept name is
  mapped to the minimum of its surviving versions: to one of them that none of them is
  below. With a resolver that answers \<^verbatim>\<open>["chrome 50", "chrome 60", "ie 8"]\<close> with the
  same three releases, \<open>{browsers: ["chrome 50", "chrome 60", "ie 8"]}\<close> normalises to
  \<open>{chrome: 50, ie: 8}\<close>.
\<close>

theorem getLowestVersions_minimum:
  assumes "\<forall>r \<in> set rs. releaseName r \<notin> set Object_prototype_names"
    and "\<forall>r \<in> set rs. map_of browserNameMap (releaseName r) \<noteq> None \<longrightarrow>
                       releaseVersion r \<noteq> Fin 0"
  shows "set (Object_keys (getLowestVersions rs)) = {n. survivingVersions n rs \<noteq> []} \<and>
   (\<forall>n v. v \<in> set (survivingVersions n rs) \<longrightarrow>
           v = PosInf \<or> v = NegInf \<or> (\<exists>k::int. v = Fin (of_int k))) \<and>
   (\<forall>n. survivingVersions n rs \<noteq> [] \<longrightarrow>
        (\<exists>v. map_of (getLowestVersions rs) n = Some v \<and> v \<in> set (survivingVersions n rs) \<and>
             (\<forall>w \<in> set (survivingVersions n rs). \<not> num_lt w v))) \<and>
   (browserslist E (JArr [JStr ''chrome 50'', JStr ''chrome 60'', JStr ''ie 8''])
      = Some [''chrome 50'', ''chrome 60'', ''ie 8''] \<longrightarrow>
    getTargets E [(''browsers'', JArr [JStr ''chrome 50'', JStr ''chrome 60'', JStr ''ie 8''])]
      = Inr [(''chrome'', JNum (Fin 50)), (''ie'', JNum (Fin 8))])"
proof -
  have low: "getLowestVersions [''chrome 50'', ''chrome 60'', ''ie 8'']
               = [(''chrome'', Fin 50), (''ie'', Fin 8)]"
    by code_simp
  have ex: "getTargets E [(''browsers'', JArr [JStr ''chrome 50'', JStr ''chrome 60'', JStr ''ie 8''])]
          = Inr [(''chrome'', JNum (Fin 50)), (''ie'', JNum (Fin 8))]"
    if "browserslist E (JArr [JStr ''chrome 50'', JStr ''chrome 60'', JStr ''ie 8''])
          = Some [''chrome 50'', ''chrome 60'', ''ie 8'']"
    using that
    by (simp add: getTargets_def extends_def Object_keys_def js_get_def js_set_def
          resolveNode_def rewriteElectron_def resolveBrowsers_def low mergeBrowsers_def)
  have nz: "Fin 0 \<notin> set (survivingVersions n rs)" for n
    using assms(2) by (auto simp: survivingVersions_def)
  have mn: "\<exists>v. map_of (getLowestVersions rs) n = Some v \<and> v \<in> set (survivingVersions n rs) \<and>
             (\<forall>w \<in> set (survivingVersions n rs). \<not> num_lt w v)"
    if "survivingVersions n rs \<noteq> []" for n
    using assms(1) nz that by (rule getLowestVersions_min)
  from ex mn keys_getLowestVersions [OF assms(1)] survivingVersions_integers
  show ?thesis
    by blast
qed

theorem getLowestVersions_minimum_witness:
  "map_of (getLowestVersions [''chrome 50'', ''opera 12'', ''chrome 60'', ''safari TP'', ''ie 8''])
      ''chrome'' = Some (Fin 50)
   \<and> getTargets example_env
        [(''browsers'', JArr [JStr ''chrome 50'', JStr ''chrome 60'', JStr ''ie 8''])]
      = Inr [(''chrome'', JNum (Fin 50)), (''ie'', JNum (Fin 8))]"
proof -
  let ?rs = "[''chrome 50'', ''opera 12'', ''chrome 60'', ''safari TP'', ''ie 8'']"
  have a: "\<forall>r \<in> set ?rs. releaseName r \<notin> set Object_prototype_names"
    by code_simp
  have b: "\<forall>r \<in> set ?rs. map_of browserNameMap (releaseName r) \<noteq> None \<longrightarrow>
                         releaseVersion r \<noteq> Fin 0"
    by code_simp
  have s: "survivingVersions ''chrome'' ?rs = [Fin 50, Fin 60]"
    by code_simp
  have q: "browserslist example_env (JArr [JStr ''chrome 50'', JStr ''chrome 60'', JStr ''ie 8''])
             = Some [''chrome 50'', ''chrome 60'', ''ie 8'']"
    by (simp add: example_env_def)
  from getLowestVersions_minimum [OF a b, of example_env] q
  have g: "getTargets example_env
           [(''browsers'', JArr [JStr ''chrome 50'', JStr ''chrome 60'', JStr ''ie 8''])]
         = Inr [(''chrome'', JNum (Fin 50)), (''ie'', JNum (Fin 8))]"
    and "survivingVersions ''chrome'' ?rs \<noteq> [] \<longrightarrow>
          (\<exists>v. map_of (getLowestVersions ?rs) ''chrome'' = Some v \<and>
               v \<in> set (survivingVersions ''chrome'' ?rs) \<and>
               (\<forall>w \<in> set (survivingVersions ''chrome'' ?rs). \<not> num_lt w v))"
    by blast+
  then obtain v where v: "map_of (getLowestVersions ?rs) ''chrome'' = Some v"
    and "v = Fin 50 \<or> v = Fin 60" and "\<not> num_lt (Fin 50) v"
    by (auto simp: s)
  then have "v = Fin 50"
    by auto
  with v g show ?thesis
    by simp
qed

text \<open>
  Claim C5. Let the \<^verbatim>\<open>browsers\<close> value of the target map \<open>T\<close> be a string or an array,
  let the resolver answer it with \<open>releases\<close>, and let \<open>P\<close> be the target map after the
  node shorthand and the electron rewrite. Then \<^verbatim>\<open>getTargets\<close> returns the lowest
  versions of the releases overlaid with every key of \<open>P\<close> but \<^verbatim>\<open>browsers\<close>: its keys
  are those of the query and those of \<open>P\<close> except \<^verbatim>\<open>browsers\<close>, a key of \<open>P\<close> has the
  value it has in \<open>P\<close>, any other key the value from the query, and a key of \<open>T\<close> that
  the first steps do not rewrite has the value it has in \<open>T\<close>.
\<close>

theorem getTargets_merge:
  assumes "isBrowsersQueryValid (js_get T ''browsers'')"
    and "browserslist E (js_get T ''browsers'') = Some releases"
    and "rewriteElectron E (resolveNode E (extends [] T)) = Inr P"
  shows "\<exists>R. getTargets E T = Inr R \<and>
           R = mergeBrowsers (map (\<lambda>(k, v). (k, JNum v)) (getLowestVersions releases)) P \<and>
           set (Object_keys R) =
             set (Object_keys (getLowestVersions releases)) \<union> (set (Object_keys P) - {''browsers''}) \<and>
           (\<forall>k \<in> set (Object_keys P) - {''browsers''}. js_get R k = js_get P k) \<and>
           (\<forall>k. k \<notin> set (Object_keys P) \<longrightarrow>
                js_get R k = (case map_of (getLowestVersions releases) k of
                                None \<Rightarrow> JUndefined | Some v \<Rightarrow> JNum v)) \<and>
           (\<forall>k \<in> set (Object_keys T).
                k \<noteq> ''browsers'' \<and>
                (k = ''node'' \<longrightarrow> js_get T k \<noteq> JBool True \<and> js_get T k \<noteq> JStr ''current'') \<and>
                (k = ''electron'' \<or> k = ''chrome'' \<longrightarrow> \<not> truthy (js_get T ''electron'')) \<longrightarrow>
                js_get R k = js_get T k)"
proof -
  let ?q = "map (\<lambda>(k, v). (k, JNum v)) (getLowestVersions releases)"
  let ?R = "mergeBrowsers ?q P"
  have Pb: "js_get P ''browsers'' = js_get T ''browsers''"
    using assms(3) by (rule processed_browsers)
  have "resolveBrowsers E P = Inr ?R"
    using assms(1,2) Pb by (simp add: resolveBrowsers_valid)
  then have g: "getTargets E T = Inr ?R"
    using getTargets_processed [OF assms(3)] by simp
  have ks: "set (Object_keys ?R) =
      set (Object_keys (getLowestVersions releases)) \<union> (set (Object_keys P) - {''browsers''})"
    by (simp add: keys_mergeBrowsers keys_query)
  have v1: "\<forall>k \<in> set (Object_keys P) - {''browsers''}. js_get ?R k = js_get P k"
    by (simp add: js_get_mergeBrowsers)
  have v2: "\<forall>k. k \<notin> set (Object_keys P) \<longrightarrow>
        js_get ?R k = (case map_of (getLowestVersions releases) k of
                         None \<Rightarrow> JUndefined | Some v \<Rightarrow> JNum v)"
    by (simp add: js_get_mergeBrowsers js_get_query)
  have "js_get ?R k = js_get T k"
    if "k \<in> set (Object_keys T)" and "k \<noteq> ''browsers''"
      and n: "k = ''node'' \<longrightarrow> js_get T k \<noteq> JBool True \<and> js_get T k \<noteq> JStr ''current''"
      and e: "k = ''electron'' \<or> k = ''chrome'' \<longrightarrow> \<not> truthy (js_get T ''electron'')" for k
  proof -
    have "k = ''node'' \<longrightarrow> js_get T ''node'' \<noteq> JBool True \<and> js_get T ''node'' \<noteq> JStr ''current''"
      using n by auto
    then have Pk: "js_get P k = js_get T k"
      using e by (rule processed_keeps [OF assms(3)])
    have "k \<in> set (Object_keys P)"
      using that(1) e by (auto simp: processed_keys [OF assms(3)])
    then show ?thesis
      using that(2) Pk by (simp add: js_get_mergeBrowsers)
  qed
  then have v3: "\<forall>k \<in> set (Object_keys T).
                k \<noteq> ''browsers'' \<and>
                (k = ''node'' \<longrightarrow> js_get T k \<noteq> JBool True \<and> js_get T k \<noteq> JStr ''current'') \<and>
                (k = ''electron'' \<or> k = ''chrome'' \<longrightarrow> \<not> truthy (js_get T ''electron'')) \<longrightarrow>
                js_get ?R k = js_get T k"
    by blast
  show ?thesis
    apply (rule exI [of _ ?R])
    apply (intro conjI)
         apply (rule g)
        apply (rule refl)
       apply (rule ks)
      apply (rule v1)
     apply (rule v2)
    apply (rule v3)
    done
qed

theorem getTargets_merge_witness:
  "getTargets example_env [(''browsers'', JStr ''chrome 50''), (''node'', JNum (Fin 10))]
     = Inr [(''chrome'', JNum (Fin 50)), (''node'', JNum (Fin 10))]"
proof -
  let ?T = "[(''browsers'', JStr ''chrome 50''), (''node'', JNum (Fin 10))]"
  have a: "isBrowsersQueryValid (js_get ?T ''browsers'')"
    by (simp add: js_get_def)
  have b: "browserslist example_env (js_get ?T ''browsers'') = Some [''chrome 50'']"
    by (simp add: js_get_def example_env_def)
  have c: "rewriteElectron example_env (resolveNode example_env (extends [] ?T)) = Inr ?T"
    by code_simp
  have d: "mergeBrowsers (map (\<lambda>(k, v). (k, JNum v)) (getLowestVersions [''chrome 50''])) ?T
             = [(''chrome'', JNum (Fin 50)), (''node'', JNum (Fin 10))]"
    by code_simp
  from getTargets_merge [OF a b c] d show ?thesis
    by auto
qed

lemma electronVersionToChromeVersion_one:
  "electronVersionToChromeVersion E (JStr ''1'') = electronVersionToChromeVersion E (JStr ''1.0'')"
  by (simp add: electronVersionToChromeVersion_def)

lemma getTargets_electron_result:
  assumes "truthy (js_get T ''electron'')"
    and "electronVersionToChromeVersion E (js_get T ''electron'') = Inr v"
    and "getTargets E T = Inr R"
  shows "js_get R ''chrome'' = v \<and> ''electron'' \<notin> set (Object_keys R)"
proof -
  from getTargets_Inr_processed [OF assms(3)] obtain P
    where P: "rewriteElectron E (resolveNode E (extends [] T)) = Inr P"
      and rb: "resolveBrowsers E P = Inr R" by blast
  have Pdef: "P = js_delete (js_set (resolveNode E (extends [] T)) ''chrome'' v) ''electron''"
    using P assms(1,2) by (simp add: rewriteElectron_def processed_electron)
  have Pc: "js_get P ''chrome'' = v"
    by (simp add: Pdef js_get_js_delete js_get_js_set)
  have Pk: "''chrome'' \<in> set (Object_keys P)" "''electron'' \<notin> set (Object_keys P)"
    by (simp_all add: Pdef keys_js_delete keys_js_set)
  have "js_get R ''chrome'' = v"
    using resolveBrowsers_keeps [OF rb Pk(1)] Pc by simp
  moreover have "''electron'' \<notin> set (Object_keys R)"
    using resolveBrowsers_Inr [OF rb] Pk(2) keys_getLowestVersions_names(1)
    by (auto simp: keys_mergeBrowsers keys_query)
  ultimately show ?thesis ..
qed

text \<open>
  Claim C6. Let the \<^verbatim>\<open>electron\<close> value of the target map \<open>T\<close> be truthy, \<open>s\<close> its
  string and \<open>s'\<close> the string \<^verbatim>\<open>"1.0"\<close> when \<open>s\<close> is \<^verbatim>\<open>"1"\<close>, and \<open>s\<close> otherwise. If
  \<open>s'\<close> does not begin with digits, a dot and digits, \<^verbatim>\<open>getTargets\<close> fails with the
  semver error. If it begins with \<open>m\<close> of that shape and the translation table has no
  truthy value for \<open>m\<close>, \<^verbatim>\<open>getTargets\<close> fails with the error that the version is too
  old or too new. If the table has a truthy value for \<open>m\<close>, every map that
  \<^verbatim>\<open>getTargets\<close> returns has that value under \<^verbatim>\<open>chrome\<close> and no \<^verbatim>\<open>electron\<close> key, and
  \<^verbatim>\<open>getTargets\<close> does return unless the resolver fails on a \<^verbatim>\<open>browsers\<close> query. In
  particular \<open>{electron: "1"}\<close> gives \<open>{chrome: v}\<close> for the value \<open>v\<close> of \<^verbatim>\<open>"1.0"\<close>, and
  \<open>{electron: "99.9"}\<close> fails when the table has no value for \<^verbatim>\<open>"99.9"\<close>.
\<close>

theorem getTargets_electron:
  assumes "truthy (js_get T ''electron'')"
    and "s = js_String (numberToString E) (js_get T ''electron'')"
    and "s' = (if s = ''1'' then ''1.0'' else s)"
  shows "(match_major_minor s' = None \<longrightarrow> getTargets E T = Inl ElectronMustBeSemver) \<and>
         (\<forall>m. match_major_minor s' = Some m \<and> \<not> truthy (js_get (electronToChromium E) m) \<longrightarrow>
               getTargets E T = Inl (ElectronTooOldOrNew m)) \<and>
         (\<forall>m R. match_major_minor s' = Some m \<and> truthy (js_get (electronToChromium E) m) \<and>
                 getTargets E T = Inr R \<longrightarrow>
                 js_get R ''chrome'' = js_get (electronToChromium E) m \<and>
                 ''electron'' \<notin> set (Object_keys R)) \<and>
         (\<forall>m. match_major_minor s' = Some m \<and> truthy (js_get (electronToChromium E) m) \<and>
               (isBrowsersQueryValid (js_get T ''browsers'') \<longrightarrow>
                  browserslist E (js_get T ''browsers'') \<noteq> None) \<longrightarrow>
               (\<exists>R. getTargets E T = Inr R)) \<and>
         (truthy (js_get (electronToChromium E) ''1.0'') \<longrightarrow>
            getTargets E [(''electron'', JStr ''1'')]
              = Inr [(''chrome'', js_get (electronToChromium E) ''1.0'')]) \<and>
         (\<not> truthy (js_get (electronToChromium E) ''99.9'') \<longrightarrow>
            getTargets E [(''electron'', JStr ''99.9'')] = Inl (ElectronTooOldOrNew ''99.9''))"
proof -
  let ?x = "js_get T ''electron''"
  have ev: "electronVersionToChromeVersion E ?x =
        (case match_major_minor s' of
           None \<Rightarrow> Inl ElectronMustBeSemver
         | Some m \<Rightarrow> if \<not> truthy (js_get (electronToChromium E) m)
                     then Inl (ElectronTooOldOrNew m) else Inr (js_get (electronToChromium E) m))"
    using assms(2,3) by (simp add: electronVersionToChromeVersion_def Let_def split: option.splits)
  have a: "match_major_minor s' = None \<longrightarrow> getTargets E T = Inl ElectronMustBeSemver"
    using getTargets_electron_fails [OF assms(1), of E ElectronMustBeSemver] ev by simp
  have b: "getTargets E T = Inl (ElectronTooOldOrNew m)"
    if "match_major_minor s' = Some m" and "\<not> truthy (js_get (electronToChromium E) m)" for m
    using getTargets_electron_fails [OF assms(1), of E "ElectronTooOldOrNew m"] ev that by simp
  have c: "js_get R ''chrome'' = js_get (electronToChromium E) m \<and> ''electron'' \<notin> set (Object_keys R)"
    if "match_major_minor s' = Some m" and "truthy (js_get (electronToChromium E) m)"
      and "getTargets E T = Inr R" for m R
    using getTargets_electron_result [OF assms(1) _ that(3)] ev that(1,2) by simp
  have d: "\<exists>R. getTargets E T = Inr R"
    if "match_major_minor s' = Some m" and "truthy (js_get (electronToChromium E) m)"
      and "isBrowsersQueryValid (js_get T ''browsers'') \<longrightarrow>
             browserslist E (js_get T ''browsers'') \<noteq> None" for m
    using getTargets_succeeds [of T E] ev that by simp
  have m1: "match_major_minor ''1.0'' = Some ''1.0''"
    by code_simp
  have m2: "match_major_minor ''99.9'' = Some ''99.9''"
    by code_simp
  have e: "getTargets E [(''electron'', JStr ''1'')]
             = Inr [(''chrome'', js_get (electronToChromium E) ''1.0'')]"
    if "truthy (js_get (electronToChromium E) ''1.0'')"
    using that
    by (simp add: getTargets_def extends_def Object_keys_def js_get_def [of "[_]"]
          js_get_def [of "[]"] js_set_def js_delete_def
          resolveNode_def rewriteElectron_def resolveBrowsers_def
          electronVersionToChromeVersion_def m1)
  have f: "getTargets E [(''electron'', JStr ''99.9'')] = Inl (ElectronTooOldOrNew ''99.9'')"
    if "\<not> truthy (js_get (electronToChromium E) ''99.9'')"
    using that
    by (simp add: getTargets_def extends_def Object_keys_def js_get_def [of "[_]"]
          js_get_def [of "[]"] js_set_def js_delete_def
          resolveNode_def rewriteElectron_def resolveBrowsers_def
          electronVersionToChromeVersion_def m2)
  from a b c d e f show ?thesis
    by blast
qed

theorem getTargets_electron_witness:
  "getTargets example_env [(''electron'', JStr ''1'')] = Inr [(''chrome'', JNum (Fin 49))]
   \<and> getTargets example_env [(''electron'', JStr ''99.9'')] = Inl (ElectronTooOldOrNew ''99.9'')
   \<and> getTargets example_env [(''electron'', JStr ''beta'')] = Inl ElectronMustBeSemver"
proof -
  let ?T = "[(''electron'', JStr ''beta'')]"
  have a: "truthy (js_get ?T ''electron'')"
    by (simp add: js_get_def)
  have b: "''beta'' = js_String (numberToString example_env) (js_get ?T ''electron'')"
    by (simp add: js_get_def)
  have c: "''beta'' = (if ''beta'' = ''1'' then ''1.0'' else ''beta'')"
    by simp
  have m: "match_major_minor ''beta'' = None"
    by code_simp
  have t1: "truthy (js_get (electronToChromium example_env) ''1.0'')"
    by (simp add: example_env_def js_get_def)
  have t2: "\<not> truthy (js_get (electronToChromium example_env) ''99.9'')"
    by (simp add: example_env_def js_get_def)
  have v: "js_get (electronToChromium example_env) ''1.0'' = JNum (Fin 49)"
    by (simp add: example_env_def js_get_def)
  from getTargets_electron [OF a b c] m t1 t2
  have "getTargets example_env ?T = Inl ElectronMustBeSemver"
    and "getTargets example_env [(''electron'', JStr ''1'')]
           = Inr [(''chrome'', js_get (electronToChromium example_env) ''1.0'')]"
    and "getTargets example_env [(''electron'', JStr ''99.9'')]
           = Inl (ElectronTooOldOrNew ''99.9'')"
    by blast+
  then show ?thesis
    by (simp add: v)
qed

section \<open>Properties of the preset\<close>

lemma requiredNames_Inr:
  "requiredNames E targs list = Inr ts \<Longrightarrow> ts = requiredOf E targs list"
  using filterE_Inr by (fastforce simp: requiredNames_def requiredOf_def)

lemma requiredNames_returns:
  assumes "''browsers'' \<notin> set (Object_keys targs)"
    and "\<forall>e \<in> set (Object_keys targs). \<not> is_string (js_get targs e)"
  shows "requiredNames E targs list = Inr (requiredOf E targs list)"
proof -
  have nb: "\<not> truthy (js_get targs ''browsers'')"
    using assms(1) by (simp add: js_get_absent)
  have "\<forall>e \<in> set (Object_keys targs).
          \<not> (is_string (js_get targs e) \<and> truthy_property (js_read C e))" for C
    using assms(2) by blast
  then have "\<exists>b. isPluginRequired E targs C = Inr b" for C
    using isPluginRequired_returns [OF nb] by blast
  then have "isPluginRequired E targs C = Inr (isPluginRequired E targs C = Inr True)" for C
    by (metis (full_types) sum.inject(2))
  then show ?thesis
    unfolding requiredNames_def requiredOf_def by (intro filterE_total)
qed

lemma modulePlugin_table:
  assumes "\<forall>(m, p) \<in> set (moduleTransformations E). p \<noteq> []"
  shows "modulePlugin E mt =
           (case mt of None \<Rightarrow> None | Some m \<Rightarrow> map_of (moduleTransformations E) m)"
proof (cases mt)
  case None
  then show ?thesis by (simp add: modulePlugin_def)
next
  case (Some m)
  show ?thesis
  proof (cases "map_of (moduleTransformations E) m")
    case None
    with Some show ?thesis by (simp add: modulePlugin_def)
  next
    case (Some p)
    then have "(m, p) \<in> set (moduleTransformations E)"
      by (rule map_of_SomeD)
    then have "p \<noteq> []"
      using assms by auto
    with Some \<open>mt = Some m\<close> show ?thesis by (simp add: modulePlugin_def)
  qed
qed

lemma assemble_expected:
  assumes "\<forall>(m, p) \<in> set (moduleTransformations E). p \<noteq> []"
    and "incl = transformIncludesAndExculdes (includeOpt vo)"
    and "excl = transformIncludesAndExculdes (excludeOpt vo)"
    and "polyfills =
          (if useBuiltIns vo
           then Some (filter (\<lambda>n. n \<notin> set (builtIns excl))
                        (requiredOf E targs (builtInsList E) @ defaultInclude E) @ builtIns incl)
           else None)"
  shows "assemble E vo (allTransformations (requiredOf E targs (pluginList E)) incl excl) polyfills
           = expectedPlugins E vo targs"
  using assms(2,3,4)
  by (simp add: assemble_def expectedPlugins_def allTransformations_def Let_def
        modulePlugin_table [OF assms(1)] split: option.splits)

lemma buildPreset_Inr:
  assumes "buildPreset E logged vo = Inr (ps, l)"
  obtains targs ts polyfills where
    "getTargets E (case targets vo of None \<Rightarrow> [] | Some t \<Rightarrow> t) = Inr targs"
    and "requiredNames E targs (pluginList E) = Inr ts"
    and "if useBuiltIns vo
         then \<exists>names. selectPolyfills E targs (transformIncludesAndExculdes (includeOpt vo))
                        (transformIncludesAndExculdes (excludeOpt vo)) = Inr names \<and>
                      polyfills = Some names
         else polyfills = None"
    and "ps = assemble E vo
               (allTransformations ts (transformIncludesAndExculdes (includeOpt vo))
                  (transformIncludesAndExculdes (excludeOpt vo))) polyfills"
  using assms
  by (auto simp: buildPreset_def Let_def split: sum.splits if_splits)

lemma selectPolyfills_Inr:
  "selectPolyfills E targs incl excl = Inr names \<Longrightarrow>
   names = filter (\<lambda>n. n \<notin> set (builtIns excl))
             (requiredOf E targs (builtInsList E) @ defaultInclude E) @ builtIns incl"
  by (auto simp: selectPolyfills_def split: sum.splits dest: requiredNames_Inr)

text \<open>
  Claim C2. Let the names of the module-transform table be non-empty. Whenever
  \<^verbatim>\<open>buildPreset\<close> returns, \<^verbatim>\<open>getTargets\<close> has returned some targets and the list is the
  expected one for them: the module transformation (when \<^verbatim>\<open>moduleType\<close> is not \<^verbatim>\<open>false\<close>
  and is in the table) with \<^verbatim>\<open>{loose}\<close>, then every selected transformation with
  \<^verbatim>\<open>{loose}\<close>, then, exactly when \<^verbatim>\<open>useBuiltIns\<close> holds, one polyfill unit with the
  polyfill names and with \<^verbatim>\<open>regenerator\<close> true exactly when \<^verbatim>\<open>"transform-regenerator"\<close> is
  among the selected transformations. And \<^verbatim>\<open>buildPreset\<close> does return that list when
  \<^verbatim>\<open>getTargets\<close> returns targets with no \<^verbatim>\<open>browsers\<close> key and no string version.
\<close>

theorem buildPreset_order:
  assumes "\<forall>(m, p) \<in> set (moduleTransformations E). p \<noteq> []"
  shows "(\<forall>ps l. buildPreset E logged vo = Inr (ps, l) \<longrightarrow>
            (\<exists>targs. getTargets E (case targets vo of None \<Rightarrow> [] | Some t \<Rightarrow> t) = Inr targs \<and>
                     ps = expectedPlugins E vo targs)) \<and>
         (\<forall>targs. getTargets E (case targets vo of None \<Rightarrow> [] | Some t \<Rightarrow> t) = Inr targs \<and>
                  ''browsers'' \<notin> set (Object_keys targs) \<and>
                  (\<forall>e \<in> set (Object_keys targs). \<not> is_string (js_get targs e)) \<longrightarrow>
            (\<exists>l. buildPreset E logged vo = Inr (expectedPlugins E vo targs, l)))"
proof -
  let ?incl = "transformIncludesAndExculdes (includeOpt vo)"
  let ?excl = "transformIncludesAndExculdes (excludeOpt vo)"
  have 1: "\<exists>targs. getTargets E (case targets vo of None \<Rightarrow> [] | Some t \<Rightarrow> t) = Inr targs \<and>
                   ps = expectedPlugins E vo targs"
    if "buildPreset E logged vo = Inr (ps, l)" for ps l
    using that
  proof (rule buildPreset_Inr)
    fix targs ts polyfills
    assume g: "getTargets E (case targets vo of None \<Rightarrow> [] | Some t \<Rightarrow> t) = Inr targs"
      and r: "requiredNames E targs (pluginList E) = Inr ts"
      and p: "if useBuiltIns vo
         then \<exists>names. selectPolyfills E targs ?incl ?excl = Inr names \<and> polyfills = Some names
         else polyfills = None"
      and ps: "ps = assemble E vo (allTransformations ts ?incl ?excl) polyfills"
    have ts: "ts = requiredOf E targs (pluginList E)"
      using r by (rule requiredNames_Inr)
    have "polyfills =
          (if useBuiltIns vo
           then Some (filter (\<lambda>n. n \<notin> set (builtIns ?excl))
                        (requiredOf E targs (builtInsList E) @ defaultInclude E) @ builtIns ?incl)
           else None)"
      using p by (auto split: if_splits dest: selectPolyfills_Inr)
    then have "ps = expectedPlugins E vo targs"
      using assemble_expected [OF assms refl refl] ps ts by simp
    with g show ?thesis by blast
  qed
  have 2: "\<exists>l. buildPreset E logged vo = Inr (expectedPlugins E vo targs, l)"
    if g: "getTargets E (case targets vo of None \<Rightarrow> [] | Some t \<Rightarrow> t) = Inr targs"
      and nb: "''browsers'' \<notin> set (Object_keys targs)"
      and ns: "\<forall>e \<in> set (Object_keys targs). \<not> is_string (js_get targs e)" for targs
  proof -
    have r: "requiredNames E targs list = Inr (requiredOf E targs list)" for list
      using nb ns by (rule requiredNames_returns)
    have sp: "selectPolyfills E targs ?incl ?excl =
        Inr (filter (\<lambda>n. n \<notin> set (builtIns ?excl))
               (requiredOf E targs (builtInsList E) @ defaultInclude E) @ builtIns ?incl)"
      by (simp add: selectPolyfills_def r)
    have "buildPreset E logged vo =
        Inr (assemble E vo (allTransformations (requiredOf E targs (pluginList E)) ?incl ?excl)
               (if useBuiltIns vo
                then Some (filter (\<lambda>n. n \<notin> set (builtIns ?excl))
                        (requiredOf E targs (builtInsList E) @ defaultInclude E) @ builtIns ?incl)
                else None),
             if debug vo \<and> \<not> logged then True else logged)"
      by (simp add: buildPreset_def g r sp Let_def)
    then show ?thesis
      using assemble_expected [OF assms refl refl refl, where targs = targs and vo = vo] by simp
  qed
  from 1 2 show ?thesis by blast
qed

theorem buildPreset_order_witness:
  "\<exists>l. buildPreset example_env False
       \<lparr> debug = True, loose = True, moduleType = Some ''commonjs'', useBuiltIns = True,
         targets = Some [(''chrome'', JNum (Fin 48))],
         includeOpt = [''es6.set'', ''transform-es2015-spread''],
         excludeOpt = [''web.timers''] \<rparr>
     = Inr ([BabelPlugin ''transform-es2015-modules-commonjs'' True,
             BabelPlugin ''transform-regenerator'' True,
             BabelPlugin ''transform-es2015-spread'' True,
             TransformPolyfillRequirePlugin (Some [''es6.map'', ''es6.set'']) True], l)"
proof -
  let ?vo = "\<lparr> debug = True, loose = True, moduleType = Some ''commonjs'', useBuiltIns = True,
         targets = Some [(''chrome'', JNum (Fin 48))],
         includeOpt = [''es6.set'', ''transform-es2015-spread''],
         excludeOpt = [''web.timers''] \<rparr>"
  let ?targs = "[(''chrome'', JNum (Fin 48))]"
  have tbl: "\<forall>(m, p) \<in> set (moduleTransformations example_env). p \<noteq> []"
    by (simp add: example_env_def)
  have g: "getTargets example_env (case targets ?vo of None \<Rightarrow> [] | Some t \<Rightarrow> t) = Inr ?targs"
    by code_simp
  have nb: "''browsers'' \<notin> set (Object_keys ?targs)"
    by (simp add: Object_keys_def)
  have ns: "\<forall>e \<in> set (Object_keys ?targs). \<not> is_string (js_get ?targs e)"
    by (simp add: Object_keys_def js_get_def)
  have ex: "expectedPlugins example_env ?vo ?targs =
            [BabelPlugin ''transform-es2015-modules-commonjs'' True,
             BabelPlugin ''transform-regenerator'' True,
             BabelPlugin ''transform-es2015-spread'' True,
             TransformPolyfillRequirePlugin (Some [''es6.map'', ''es6.set'']) True]"
    by code_simp
  from buildPreset_order [OF tbl, of False ?vo] g nb ns
  have "\<exists>l. buildPreset example_env False ?vo = Inr (expectedPlugins example_env ?vo ?targs, l)"
    by blast
  then show ?thesis
    by (simp only: ex)
qed

lemma builtIns_transform:
  "builtIns (transformIncludesAndExculdes opts) = filter isBuiltInName opts"
  by (simp add: transformIncludesAndExculdes_def)

lemma plugins_transform:
  "plugins (transformIncludesAndExculdes opts) = filter (\<lambda>opt. \<not> isBuiltInName opt) opts"
  by (simp add: transformIncludesAndExculdes_def)

lemma count_list_filter:
  "count_list (filter P xs) n = (if P n then count_list xs n else 0)"
  by (induction xs) auto

lemma count_list_absent: "n \<notin> set xs \<Longrightarrow> count_list xs n = 0"
  by (induction xs) auto

lemma allTransformations_lists:
  "allTransformations base (transformIncludesAndExculdes inc) (transformIncludesAndExculdes exc) =
     filter (\<lambda>p. \<not> (p \<in> set exc \<and> \<not> isBuiltInName p)) base @
     filter (\<lambda>p. \<not> isBuiltInName p) inc"
  by (simp add: allTransformations_def plugins_transform)

lemma selectPolyfills_lists:
  "requiredNames E targs (builtInsList E) = Inr required \<Longrightarrow>
   selectPolyfills E targs (transformIncludesAndExculdes inc) (transformIncludesAndExculdes exc) =
     Inr (filter (\<lambda>p. \<not> (p \<in> set exc \<and> isBuiltInName p)) (required @ defaultInclude E) @
          filter isBuiltInName inc)"
  by (simp add: selectPolyfills_def builtIns_transform)

text \<open>
  Claim C3. Let a name be both in the include list and in the exclude list. If it is a
  transformation name, the composed list is the base selection without the excluded
  transformation names, in its order, followed by the included transformation names; the
  name is not in the first part, it is in the second, and it occurs in the composed list
  as often as in the include list. If it is a built-in name, the same holds of the
  polyfills, whose base is the required polyfills followed by the default inclusions.
\<close>

theorem include_wins:
  assumes "n \<in> set inc" and "n \<in> set exc"
  shows "(\<not> isBuiltInName n \<longrightarrow>
            allTransformations base (transformIncludesAndExculdes inc)
                (transformIncludesAndExculdes exc)
              = filter (\<lambda>p. \<not> (p \<in> set exc \<and> \<not> isBuiltInName p)) base @
                filter (\<lambda>p. \<not> isBuiltInName p) inc \<and>
            n \<notin> set (filter (\<lambda>p. \<not> (p \<in> set exc \<and> \<not> isBuiltInName p)) base) \<and>
            n \<in> set (filter (\<lambda>p. \<not> isBuiltInName p) inc) \<and>
            n \<in> set (allTransformations base (transformIncludesAndExculdes inc)
                        (transformIncludesAndExculdes exc)) \<and>
            count_list (allTransformations base (transformIncludesAndExculdes inc)
                          (transformIncludesAndExculdes exc)) n = count_list inc n) \<and>
         (isBuiltInName n \<longrightarrow>
            (\<forall>required. requiredNames E targs (builtInsList E) = Inr required \<longrightarrow>
               (\<exists>names.
                  selectPolyfills E targs (transformIncludesAndExculdes inc)
                      (transformIncludesAndExculdes exc) = Inr names \<and>
                  names = filter (\<lambda>p. \<not> (p \<in> set exc \<and> isBuiltInName p))
                            (required @ defaultInclude E) @
                          filter isBuiltInName inc \<and>
                  n \<notin> set (filter (\<lambda>p. \<not> (p \<in> set exc \<and> isBuiltInName p))
                              (required @ defaultInclude E)) \<and>
                  n \<in> set (filter isBuiltInName inc) \<and>
                  n \<in> set names \<and>
                  count_list names n = count_list inc n)))"
proof -
  have 1: "count_list (filter (\<lambda>p. \<not> (p \<in> set exc \<and> \<not> isBuiltInName p)) base @
                       filter (\<lambda>p. \<not> isBuiltInName p) inc) n = count_list inc n"
    if "\<not> isBuiltInName n"
    using that assms(2) by (simp add: count_list_filter)
  have 2: "count_list (filter (\<lambda>p. \<not> (p \<in> set exc \<and> isBuiltInName p)) xs @
                       filter isBuiltInName inc) n = count_list inc n"
    if "isBuiltInName n" for xs
    using that assms(2) by (simp add: count_list_filter)
  show ?thesis
  proof (intro conjI impI allI)
    fix required
    assume b: "isBuiltInName n"
      and r: "requiredNames E targs (builtInsList E) = Inr required"
    show "\<exists>names.
            selectPolyfills E targs (transformIncludesAndExculdes inc)
                (transformIncludesAndExculdes exc) = Inr names \<and>
            names = filter (\<lambda>p. \<not> (p \<in> set exc \<and> isBuiltInName p))
                      (required @ defaultInclude E) @
                    filter isBuiltInName inc \<and>
            n \<notin> set (filter (\<lambda>p. \<not> (p \<in> set exc \<and> isBuiltInName p))
                        (required @ defaultInclude E)) \<and>
            n \<in> set (filter isBuiltInName inc) \<and>
            n \<in> set names \<and>
            count_list names n = count_list inc n"
      using selectPolyfills_lists [OF r, of inc exc] 2 [OF b, of "required @ defaultInclude E"]
            assms b
      by auto
  qed (use assms 1 in \<open>auto simp: allTransformations_lists\<close>)
qed

theorem include_wins_witness:
  "allTransformations [''feature-a'', ''feature-x'', ''feature-b'']
       (transformIncludesAndExculdes [''feature-x'', ''es6.map''])
       (transformIncludesAndExculdes [''es6.map'', ''feature-b'', ''feature-x''])
     = [''feature-a'', ''feature-x'']
   \<and> selectPolyfills example_env [(''chrome'', JNum (Fin 40))]
         (transformIncludesAndExculdes [''feature-x'', ''es6.map''])
         (transformIncludesAndExculdes [''es6.map'', ''feature-b'', ''feature-x''])
     = Inr [''web.timers'', ''es6.map'']"
proof -
  let ?inc = "[''feature-x'', ''es6.map'']"
  let ?exc = "[''es6.map'', ''feature-b'', ''feature-x'']"
  let ?base = "[''feature-a'', ''feature-x'', ''feature-b'']"
  have a: "''feature-x'' \<in> set ?inc" "''feature-x'' \<in> set ?exc"
       "''es6.map'' \<in> set ?inc" "''es6.map'' \<in> set ?exc"
    by simp_all
  have b: "\<not> isBuiltInName ''feature-x''" "\<not> isBuiltInName ''feature-a''"
          "\<not> isBuiltInName ''feature-b''" "isBuiltInName ''es6.map''"
          "isBuiltInName ''web.timers''"
    by code_simp+
  have r: "requiredNames example_env [(''chrome'', JNum (Fin 40))] (builtInsList example_env)
             = Inr [''es6.map'']"
    by code_simp
  have d: "defaultInclude example_env = [''web.timers'']"
    by (simp add: example_env_def)
  from include_wins [OF a(1,2), of ?base] b(1)
  have "allTransformations ?base (transformIncludesAndExculdes ?inc)
            (transformIncludesAndExculdes ?exc)
          = filter (\<lambda>p. \<not> (p \<in> set ?exc \<and> \<not> isBuiltInName p)) ?base @
            filter (\<lambda>p. \<not> isBuiltInName p) ?inc"
    by blast
  then have 1: "allTransformations ?base (transformIncludesAndExculdes ?inc)
                  (transformIncludesAndExculdes ?exc) = [''feature-a'', ''feature-x'']"
    using b by simp
  from include_wins [OF a(3,4), of _ example_env "[(''chrome'', JNum (Fin 40))]"] b(4) r
  have "selectPolyfills example_env [(''chrome'', JNum (Fin 40))]
          (transformIncludesAndExculdes ?inc) (transformIncludesAndExculdes ?exc)
        = Inr (filter (\<lambda>p. \<not> (p \<in> set ?exc \<and> isBuiltInName p))
                 ([''es6.map''] @ defaultInclude example_env) @
               filter isBuiltInName ?inc)"
    by blast
  then have 2: "selectPolyfills example_env [(''chrome'', JNum (Fin 40))]
          (transformIncludesAndExculdes ?inc) (transformIncludesAndExculdes ?exc)
        = Inr [''web.timers'', ''es6.map'']"
    using b d by simp
  from 1 2 show ?thesis ..
qed

end
